theory Spec2Isabelle
  imports Main "HOL-Library.AList" "HOL-Library.Sublist"
begin

section \<open>Python dictionaries\<close>

text \<open>
  A Python \<^verbatim>\<open>dict\<close> keeps its entries in insertion order and has one entry per key.
  It is modelled as an association list: \<^verbatim>\<open>d[k] = v\<close> overwrites in place or appends,
  \<^verbatim>\<open>d.pop(k, None)\<close> removes the entry if there is one. Python compares two dicts
  without regard to order, which is equality of the lookup functions.
\<close>

type_synonym ('k, 'v) pydict = "('k \<times> 'v) list"

definition wf_dict :: "('k, 'v) pydict \<Rightarrow> bool" where
  "wf_dict d = distinct (map fst d)"

definition dict_setitem :: "'k \<Rightarrow> 'v \<Rightarrow> ('k, 'v) pydict \<Rightarrow> ('k, 'v) pydict" where
  "dict_setitem k v d = AList.update k v d"

definition dict_pop :: "'k \<Rightarrow> ('k, 'v) pydict \<Rightarrow> ('k, 'v) pydict" where
  "dict_pop k d = AList.delete k d"

definition dict_eq :: "('k, 'v) pydict \<Rightarrow> ('k, 'v) pydict \<Rightarrow> bool" where
  "dict_eq d e = (map_of d = map_of e)"

section \<open>State reducers\<close>

text \<open>\<^verbatim>\<open>identity_reducer(a, b)\<close>: returns the second value.\<close>

definition identity_reducer :: "'a \<Rightarrow> 'a \<Rightarrow> 'a" where
  "identity_reducer a b = b"

text \<open>
  \<^verbatim>\<open>concat_if_not_none(a, b)\<close>. Either argument may be Python's \<^verbatim>\<open>None\<close>.
  \<^verbatim>\<open>list(set(a + b))\<close> lists the distinct elements of \<^verbatim>\<open>a + b\<close> in the iteration
  order of a hash set, which Python leaves open; the model lists them in order of first
  occurrence, and the theorems below speak only of the set of elements.
\<close>

definition concat_if_not_none :: "'a list option \<Rightarrow> 'a list option \<Rightarrow> 'a list" where
  "concat_if_not_none a b =
     (if a = None \<and> b = None then []
      else if b = None then the a
      else if a = None then the b
      else remdups (the a @ the b))"

text \<open>
  \<^verbatim>\<open>merge_kv_reducer(a, b)\<close> on a flat dict from strings to optional strings.
  \<^verbatim>\<open>dict(a or {})\<close> copies \<^verbatim>\<open>a\<close>, or starts empty when \<^verbatim>\<open>a\<close> is \<^verbatim>\<open>None\<close> or empty;
  \<^verbatim>\<open>not b\<close> holds when \<^verbatim>\<open>b\<close> is \<^verbatim>\<open>None\<close> or empty. The loop runs over the items of
  \<^verbatim>\<open>b\<close> in order.
\<close>

type_synonym kv = "(string, string option) pydict"

fun merge_kv_loop :: "kv \<Rightarrow> kv \<Rightarrow> kv" where
  "merge_kv_loop base [] = base"
| "merge_kv_loop base ((k, v) # items) =
     merge_kv_loop
       (case v of None \<Rightarrow> dict_pop k base | Some s \<Rightarrow> dict_setitem k (Some s) base)
       items"

definition merge_kv_reducer :: "kv option \<Rightarrow> kv option \<Rightarrow> kv" where
  "merge_kv_reducer a b =
     (let base = (if a = None \<or> a = Some [] then [] else the a)
      in if b = None \<or> b = Some [] then base else merge_kv_loop base (the b))"

text \<open>
  The same function over an explicit store of dict objects, to say which objects the code
  writes to. A reference is an index into the store; \<^verbatim>\<open>dict(...)\<close> allocates a new
  object at the end, and \<^verbatim>\<open>base.pop\<close> and \<^verbatim>\<open>base[k] = v\<close> update the object that
  \<^verbatim>\<open>base\<close> refers to.
\<close>

type_synonym ref = nat
type_synonym store = "kv list"

fun merge_kv_loop_st :: "store \<Rightarrow> ref \<Rightarrow> kv \<Rightarrow> store" where
  "merge_kv_loop_st st base [] = st"
| "merge_kv_loop_st st base ((k, v) # items) =
     merge_kv_loop_st
       (st[base := (case v of None \<Rightarrow> dict_pop k (st ! base)
                    | Some s \<Rightarrow> dict_setitem k (Some s) (st ! base))])
       base items"

definition merge_kv_reducer_st :: "store \<Rightarrow> ref option \<Rightarrow> ref option \<Rightarrow> store \<times> ref" where
  "merge_kv_reducer_st st a b =
     (let src = (if a = None \<or> st ! the a = [] then [] else st ! the a);
          base = length st;
          st1 = st @ [src]
      in if b = None \<or> st1 ! the b = [] then (st1, base)
         else (merge_kv_loop_st st1 base (st1 ! the b), base))"

section \<open>Message sanitizer\<close>

text \<open>
  Strings are lists of characters with code points below 256. \<^verbatim>\<open>str.strip()\<close> removes
  the leading and trailing characters for which \<^verbatim>\<open>str.isspace()\<close> holds; in that range
  these are the code points 9 to 13, 28 to 32, 133 and 160.
\<close>

definition py_isspace :: "char \<Rightarrow> bool" where
  "py_isspace c =
     (c \<in> set [CHR 0x09, CHR 0x0A, CHR 0x0B, CHR 0x0C, CHR 0x0D, CHR 0x1C, CHR 0x1D,
               CHR 0x1E, CHR 0x1F, CHR 0x20, CHR 0x85, CHR 0xA0])"

definition py_strip :: "string \<Rightarrow> string" where
  "py_strip s = rev (dropWhile py_isspace (rev (dropWhile py_isspace s)))"

text \<open>
  \<^verbatim>\<open>s.find(sub)\<close>: the lowest index at which \<^verbatim>\<open>sub\<close> starts in \<^verbatim>\<open>s\<close>, or \<open>-1\<close>;
  the empty string is found at index 0.
\<close>

fun str_find :: "string \<Rightarrow> string \<Rightarrow> nat option" where
  "str_find [] sub = (if sub = [] then Some 0 else None)"
| "str_find (c # cs) sub =
     (if prefix sub (c # cs) then Some 0 else map_option Suc (str_find cs sub))"

definition py_find :: "string \<Rightarrow> string \<Rightarrow> int" where
  "py_find s sub = (case str_find s sub of None \<Rightarrow> - 1 | Some i \<Rightarrow> int i)"

text \<open>
  \<^verbatim>\<open>sanitize_message\<close>. The loop over the markers carries \<^verbatim>\<open>earliest_pos\<close> and
  \<^verbatim>\<open>matched_marker\<close>; the matched marker goes to the log only.
\<close>

fun scan_markers :: "string \<Rightarrow> string list \<Rightarrow> int \<times> string option \<Rightarrow> int \<times> string option" where
  "scan_markers message [] acc = acc"
| "scan_markers message (marker # rest) (earliest_pos, matched_marker) =
     (let pos = py_find message marker
      in if pos \<noteq> - 1 \<and> pos < earliest_pos
         then scan_markers message rest (pos, Some marker)
         else scan_markers message rest (earliest_pos, matched_marker))"

definition sanitize_message :: "string \<Rightarrow> string list \<Rightarrow> string \<times> bool \<times> string option" where
  "sanitize_message message sanitized_keywords =
     (if message = [] \<or> sanitized_keywords = [] then (message, False, None)
      else
        let (earliest_pos, matched_marker) =
              scan_markers message sanitized_keywords (int (length message), None)
        in if matched_marker \<noteq> None
           then (py_strip (take (nat earliest_pos) message), True,
                 Some (py_strip (drop (nat earliest_pos) message)))
           else (message, False, None))"

text \<open>The marker occurs in the message at offset \<open>i\<close>.\<close>

definition occurs_at :: "string \<Rightarrow> string \<Rightarrow> nat \<Rightarrow> bool" where
  "occurs_at marker message i = (i \<le> length message \<and> prefix marker (drop i message))"

text \<open>What the loop has established after the markers \<open>seen\<close>.\<close>

definition scan_inv :: "string \<Rightarrow> string list \<Rightarrow> int \<times> string option \<Rightarrow> bool" where
  "scan_inv message seen acc =
     (case snd acc of
        None \<Rightarrow> fst acc = int (length message) \<and> (\<forall>m \<in> set seen. str_find message m = None)
      | Some m \<Rightarrow>
          (\<exists>p. fst acc = int p \<and> p < length message
             \<and> (\<forall>m' \<in> set seen. \<forall>q. str_find message m' = Some q \<longrightarrow> p \<le> q)
             \<and> List.find (\<lambda>m'. str_find message m' = Some p) seen = Some m))"

section \<open>Exceptions\<close>

text \<open>
  A raised exception is a value: its class and its message (\<^verbatim>\<open>str(e)\<close>). Every class
  below derives from \<^verbatim>\<open>Exception\<close> except \<^verbatim>\<open>CancelledError\<close>, which derives from
  \<^verbatim>\<open>BaseException\<close> and so passes through \<^verbatim>\<open>except Exception\<close>.
\<close>

datatype exc_class =
  KeyError | IndexError | TypeError | AttributeError | ValueError | RuntimeError
  | QueueFull | QueueEmpty | TimeoutError | CancelledError | OtherError

datatype py_error = Raise exc_class string

fun exc_class_of :: "py_error \<Rightarrow> exc_class" where
  "exc_class_of (Raise c m) = c"

fun str_of_error :: "py_error \<Rightarrow> string" where
  "str_of_error (Raise c m) = m"

definition is_Exception :: "py_error \<Rightarrow> bool" where
  "is_Exception e = (exc_class_of e \<noteq> CancelledError)"

section \<open>Configuration, messages, state\<close>

datatype router_mode = HANDOFF | ORCHESTRATOR

record agent_config =
  name :: string
  system_prompt :: string
  tools :: "string list option"
  model_name :: "string option"
  responsibility :: "string option"

record agents_config =
  global_system_prompt_template :: string
  agents :: "agent_config list"
  silence_tool_message :: bool
  router_mode :: router_mode
  orchestrator_prompt :: "string option"
  security_prompt :: string
  crm_integration :: "string option"
  sanitized_keywords :: "string list"

text \<open>
  The messages of a transcript: \<^verbatim>\<open>AIMessage\<close> and \<^verbatim>\<open>ToolMessage\<close> of the message
  library, and any other entry (a human message, a \<^verbatim>\<open>("user", text)\<close> tuple). Of a tool
  call only the name is read. The identifier of a message may be \<^verbatim>\<open>None\<close>.
\<close>

datatype tool_call = ToolCall (tc_name: string)

datatype message =
  AIMessage (msg_id: "string option") (content: string) (tool_calls: "tool_call list")
  | ToolMessage (msg_id: "string option") (content: string) (tool_call_id: string)
  | OtherMessage (msg_id: "string option") (content: string)

text \<open>
  The session state is a Python dict from field names to values; the values the modelled
  code reads or writes are \<^verbatim>\<open>None\<close>, strings, booleans, message lists and tool calls.
\<close>

datatype pyval =
  VNone | VStr string | VBool bool | VMessages "message list" | VToolCalls "tool_call list"

type_synonym state = "string \<rightharpoonup> pyval"

fun py_truthy :: "pyval \<Rightarrow> bool" where
  "py_truthy VNone = False"
| "py_truthy (VStr s) = (s \<noteq> [])"
| "py_truthy (VBool b) = b"
| "py_truthy (VMessages ms) = (ms \<noteq> [])"
| "py_truthy (VToolCalls cs) = (cs \<noteq> [])"

text \<open>\<^verbatim>\<open>Command(goto=..., graph=..., update={...})\<close>; the update is a dict literal.\<close>

record command =
  goto :: string
  cmd_graph :: "string option"
  update :: "(string, pyval) pydict"

definition PARENT :: string where
  "PARENT = ''__parent__''"

definition NO_AGENT_PROVIDED :: string where
  "NO_AGENT_PROVIDED = ''not_provided''"

definition MAX_SENT_EVENTS :: nat where
  "MAX_SENT_EVENTS = 1000"

definition ORCHESTRATOR_NODE :: string where
  "ORCHESTRATOR_NODE = ''orchestrator''"

definition ANALYZER_NODE :: string where
  "ANALYZER_NODE = ''analyzer''"

definition DECISION_NODE :: string where
  "DECISION_NODE = ''decision''"

definition NEW_ACTIVE_AGENT_NODE :: string where
  "NEW_ACTIVE_AGENT_NODE = ''new_active_agent''"

section \<open>Hand-off tool\<close>

text \<open>
  \<^verbatim>\<open>make_handoff_tool(agent_name=..., config=...)\<close> returns the tool; \<open>handoff_to_agent\<close>
  is its body, run on the injected state. \<^verbatim>\<open>next((agent for ... if ...), None)\<close> is the
  first agent of that name. \<^verbatim>\<open>state["messages"]\<close> raises \<^verbatim>\<open>KeyError\<close> on a missing
  key, and \<^verbatim>\<open>[:-1]\<close> drops the last element of a list or string and raises
  \<^verbatim>\<open>TypeError\<close> on the other values.
\<close>

definition slice_butlast :: "pyval \<Rightarrow> py_error + pyval" where
  "slice_butlast v =
     (case v of
        VMessages ms \<Rightarrow> Inr (VMessages (butlast ms))
      | VStr s \<Rightarrow> Inr (VStr (butlast s))
      | VToolCalls cs \<Rightarrow> Inr (VToolCalls (butlast cs))
      | _ \<Rightarrow> Inl (Raise TypeError ''object is not subscriptable''))"

definition handoff_to_agent :: "string \<Rightarrow> agents_config \<Rightarrow> state \<Rightarrow> py_error + command" where
  "handoff_to_agent agent_name config state =
     (let agent_config = List.find (\<lambda>agent. name agent = agent_name) (agents config)
      in case state ''messages'' of
           None \<Rightarrow> Inl (Raise KeyError ''messages'')
         | Some v \<Rightarrow>
             (case slice_butlast v of
                Inl e \<Rightarrow> Inl e
              | Inr ms \<Rightarrow>
                  Inr \<lparr>goto = agent_name, cmd_graph = Some PARENT,
                       update =
                         [(''messages'', ms),
                          (''active_agent'', VStr agent_name),
                          (''active_agent_prompt'',
                           VStr (case agent_config of
                                   Some c \<Rightarrow> system_prompt c
                                 | None \<Rightarrow> ''''))]\<rparr>))"

definition make_handoff_tool ::
  "string \<Rightarrow> agents_config \<Rightarrow> string \<times> (state \<Rightarrow> py_error + command)" where
  "make_handoff_tool agent_name config =
     (''hand_off_to_'' @ agent_name, handoff_to_agent agent_name config)"

section \<open>Arbitrated routing\<close>

text \<open>
  \<^verbatim>\<open>orchestrator_node\<close>, from the reply of the model on: \<open>response_content\<close> is
  \<^verbatim>\<open>response.content\<close>. The result is the state update the node returns.
\<close>

definition orchestrator_node :: "agents_config \<Rightarrow> state \<Rightarrow> string \<Rightarrow> (string, pyval) pydict" where
  "orchestrator_node config state response_content =
     (let suggested_agent = py_strip response_content;
          agent_names = map name (agents config)
      in if agent_names = [] then [(''orchestrator_suggested_agent'', VStr NO_AGENT_PROVIDED)]
         else if suggested_agent \<notin> set agent_names
         then [(''orchestrator_suggested_agent'',
                (case state ''active_agent'' of
                   None \<Rightarrow> VStr (hd agent_names)
                 | Some v \<Rightarrow> v))]
         else [(''orchestrator_suggested_agent'', VStr suggested_agent)])"

definition create_agent_switch_command :: "agents_config \<Rightarrow> pyval \<Rightarrow> command" where
  "create_agent_switch_command config new_active_agent =
     (case List.find (\<lambda>agent. VStr (name agent) = new_active_agent) (agents config) of
        None \<Rightarrow> \<lparr>goto = ANALYZER_NODE, cmd_graph = None, update = []\<rparr>
      | Some agent_config \<Rightarrow>
          \<lparr>goto = NEW_ACTIVE_AGENT_NODE, cmd_graph = None,
           update =
             [(''active_agent'', new_active_agent),
              (''active_agent_prompt'', VStr (system_prompt agent_config))]\<rparr>)"

definition decision_node :: "agents_config \<Rightarrow> state \<Rightarrow> py_error + command" where
  "decision_node config state =
     (let new_active_agent =
            (case state ''orchestrator_suggested_agent'' of None \<Rightarrow> VNone | Some v \<Rightarrow> v)
      in if \<not> py_truthy new_active_agent \<or> new_active_agent = VStr NO_AGENT_PROVIDED
         then Inr \<lparr>goto = ANALYZER_NODE, cmd_graph = None, update = []\<rparr>
         else
           (case state ''active_agent'' of
              None \<Rightarrow> Inl (Raise KeyError ''active_agent'')
            | Some current_active_agent \<Rightarrow>
                if new_active_agent \<noteq> current_active_agent
                then Inr (create_agent_switch_command config new_active_agent)
                else Inr \<lparr>goto = ANALYZER_NODE, cmd_graph = None, update = []\<rparr>))"

section \<open>TTFT metrics queue\<close>

text \<open>
  An \<^verbatim>\<open>asyncio.Queue(maxsize)\<close> with its oldest item first; it is never full when
  \<^verbatim>\<open>maxsize\<close> is zero or negative. \<^verbatim>\<open>put_nowait\<close> and \<^verbatim>\<open>get_nowait\<close> do not wait:
  they raise \<^verbatim>\<open>QueueFull\<close> and \<^verbatim>\<open>QueueEmpty\<close>. The event is built from the clock and
  a float and is opaque to the queue.
\<close>

record 'e aqueue =
  queue_items :: "'e list"
  maxsize :: int

definition full :: "'e aqueue \<Rightarrow> bool" where
  "full q = (if maxsize q \<le> 0 then False else maxsize q \<le> int (length (queue_items q)))"

definition put_nowait :: "'e \<Rightarrow> 'e aqueue \<Rightarrow> py_error + 'e aqueue" where
  "put_nowait item q =
     (if full q then Inl (Raise QueueFull '''') else Inr (q\<lparr>queue_items := queue_items q @ [item]\<rparr>))"

definition get_nowait :: "'e aqueue \<Rightarrow> py_error + ('e \<times> 'e aqueue)" where
  "get_nowait q =
     (case queue_items q of
        [] \<Rightarrow> Inl (Raise QueueEmpty '''')
      | x # xs \<Rightarrow> Inr (x, q\<lparr>queue_items := xs\<rparr>))"

record 'e ttft_agent =
  ttft_queue :: "'e aqueue option"
  queue_overflow_count :: int

text \<open>
  \<^verbatim>\<open>_emit_ttft\<close> on the queue and the overflow counter. With tracking off the queue is
  \<^verbatim>\<open>None\<close> and the attribute error ends in the outer handler, as does a \<^verbatim>\<open>QueueFull\<close>
  raised inside the overflow handler. The registered handlers are called afterwards and
  are outside the model.
\<close>

definition emit_ttft :: "'e ttft_agent \<Rightarrow> 'e \<Rightarrow> 'e ttft_agent" where
  "emit_ttft self event =
     (case ttft_queue self of
        None \<Rightarrow> self
      | Some q \<Rightarrow>
          (case put_nowait event q of
             Inr q' \<Rightarrow> self\<lparr>ttft_queue := Some q'\<rparr>
           | Inl _ \<Rightarrow>
               (let self1 = self\<lparr>queue_overflow_count := queue_overflow_count self + 1\<rparr>
                in case get_nowait q of
                     Inr (_, q1) \<Rightarrow>
                       (case put_nowait event q1 of
                          Inr q2 \<Rightarrow> self1\<lparr>ttft_queue := Some q2\<rparr>
                        | Inl _ \<Rightarrow> self1\<lparr>ttft_queue := Some q1\<rparr>)
                   | Inl _ \<Rightarrow>
                       (case put_nowait event q of
                          Inr q2 \<Rightarrow> self1\<lparr>ttft_queue := Some q2\<rparr>
                        | Inl _ \<Rightarrow> self1))))"

text \<open>A sequence of pushes with no pull in between.\<close>

fun emit_all :: "'e ttft_agent \<Rightarrow> 'e list \<Rightarrow> 'e ttft_agent" where
  "emit_all self [] = self"
| "emit_all self (event # events) = emit_all (emit_ttft self event) events"

section \<open>Outbound events\<close>

text \<open>
  The dicts the orchestrator yields: \<^verbatim>\<open>{"type": "debug", "event": ..., "data": ...}\<close>
  (the data may be missing), \<^verbatim>\<open>{"type": "message", "content": ..., "id": ...}\<close> and
  \<^verbatim>\<open>{"type": "error", "event": ..., "data": {"error": ...}}\<close>.
\<close>

datatype event =
  DebugEvent string "(string, pyval) pydict option"
  | MessageEvent string "string option"
  | ErrorEvent string string

section \<open>Agent orchestrator\<close>

record analyzer_client_obj =
  connected :: bool

record compiled_graph =
  graph_nodes :: "string list"
  graph_checkpointer :: "nat option"

text \<open>
  The fields of \<^verbatim>\<open>AgentOrchestrator\<close> that the modelled methods read or write. The
  connection pool is a handle (a number), the checkpointer an \<^verbatim>\<open>AsyncPostgresSaver\<close>
  over that pool, the compiled graph the names of its nodes and its checkpointer.
\<close>

record orchestrator =
  chat_id :: string
  config :: "agents_config option"
  graph :: "compiled_graph option"
  orch_state :: state
  sent_events :: "(string, bool) pydict"
  is_first :: bool
  checkpointer :: "nat option"
  analyzer_client :: "analyzer_client_obj option"

text \<open>\<^verbatim>\<open>_initialize_state\<close> and \<^verbatim>\<open>__init__\<close>: \<^verbatim>\<open>agents[0]\<close> raises on an empty list.\<close>

definition initialize_state :: "string \<Rightarrow> agents_config \<Rightarrow> state \<Rightarrow> py_error + state" where
  "initialize_state cid cfg initial_context =
     (case agents cfg of
        [] \<Rightarrow> Inl (Raise IndexError ''list index out of range'')
      | a # _ \<Rightarrow>
          Inr (initial_context
                 (''active_agent'' \<mapsto> VStr (name a),
                  ''active_agent_prompt'' \<mapsto> VStr (system_prompt a),
                  ''crm_integration'' \<mapsto>
                     (case crm_integration cfg of None \<Rightarrow> VNone | Some s \<Rightarrow> VStr s),
                  ''thread_id'' \<mapsto> VStr cid)))"

definition new_orchestrator :: "string \<Rightarrow> agents_config \<Rightarrow> state \<Rightarrow> py_error + orchestrator" where
  "new_orchestrator cid cfg initial_context =
     (case initialize_state cid cfg initial_context of
        Inl e \<Rightarrow> Inl e
      | Inr st \<Rightarrow>
          Inr \<lparr>chat_id = cid, config = Some cfg, graph = None, orch_state = st,
               sent_events = [], is_first = True, checkpointer = None,
               analyzer_client = None\<rparr>)"

text \<open>
  What the collaborators do during one call of \<^verbatim>\<open>initialize\<close>: the connection pool is
  returned or raises, \<^verbatim>\<open>checkpointer.setup()\<close> and \<^verbatim>\<open>analyzer_client.connect()\<close>
  return or raise, and building and compiling the graph (tools, models, agents, nodes,
  edges) returns or raises.
\<close>

record init_env =
  pool_result :: "py_error + nat"
  checkpointer_setup_error :: "py_error option"
  analyzer_connect_error :: "py_error option"
  build_error :: "py_error option"

text \<open>
  \<^verbatim>\<open>_setup_dependencies\<close>. The result is the orchestrator as the method leaves it and the
  exception that leaves the method, if any. An \<^verbatim>\<open>Exception\<close> from
  \<^verbatim>\<open>checkpointer.setup()\<close> is logged as a warning and dropped.
\<close>

definition setup_dependencies :: "init_env \<Rightarrow> orchestrator \<Rightarrow> orchestrator \<times> py_error option" where
  "setup_dependencies env self =
     (case pool_result env of
        Inl e \<Rightarrow> (self, Some e)
      | Inr connection_pool \<Rightarrow>
          (let self1 = self\<lparr>checkpointer := Some connection_pool\<rparr>;
               self2 = self1\<lparr>analyzer_client := Some \<lparr>connected = False\<rparr>\<rparr>
           in case checkpointer_setup_error env of
                Some e \<Rightarrow>
                  if is_Exception e
                  then (case analyzer_connect_error env of
                          Some e' \<Rightarrow> (self2, Some e')
                        | None \<Rightarrow> (self2\<lparr>analyzer_client := Some \<lparr>connected = True\<rparr>\<rparr>, None))
                  else (self1, Some e)
              | None \<Rightarrow>
                  (case analyzer_connect_error env of
                     Some e' \<Rightarrow> (self2, Some e')
                   | None \<Rightarrow> (self2\<lparr>analyzer_client := Some \<lparr>connected = True\<rparr>\<rparr>, None))))"

text \<open>
  \<^verbatim>\<open>_build_graph\<close>: returns early, leaving the graph unset, when there are no agents.
  The hand-off graph has a node per agent and the analyzer node; the arbitrated graph
  adds the arbiter, decision and re-entry nodes.
\<close>

definition build_graph :: "init_env \<Rightarrow> orchestrator \<Rightarrow> orchestrator \<times> py_error option" where
  "build_graph env self =
     (case config self of
        None \<Rightarrow> (self, Some (Raise AttributeError ''agents''))
      | Some cfg \<Rightarrow>
          if agents cfg = [] then (self, None)
          else
            (case build_error env of
               Some e \<Rightarrow> (self, Some e)
             | None \<Rightarrow>
                 (self\<lparr>graph :=
                    Some \<lparr>graph_nodes =
                            (case router_mode cfg of
                               HANDOFF \<Rightarrow> map name (agents cfg) @ [ANALYZER_NODE]
                             | ORCHESTRATOR \<Rightarrow>
                                 map name (agents cfg) @
                                 [ORCHESTRATOR_NODE, ANALYZER_NODE, DECISION_NODE,
                                  NEW_ACTIVE_AGENT_NODE]),
                          graph_checkpointer = checkpointer self\<rparr>\<rparr>,
                  None)))"

text \<open>
  \<^verbatim>\<open>initialize\<close>: the orchestrator afterwards, and the returned boolean or the exception
  that leaves the method. \<^verbatim>\<open>except Exception\<close> catches every class but
  \<^verbatim>\<open>CancelledError\<close>.
\<close>

definition initialize :: "init_env \<Rightarrow> orchestrator \<Rightarrow> orchestrator \<times> (py_error + bool)" where
  "initialize env self =
     (if config self = None then (self, Inr False)
      else if graph self \<noteq> None then (self, Inr True)
      else
        (case setup_dependencies env self of
           (self1, Some e) \<Rightarrow> (self1, if is_Exception e then Inr False else Inl e)
         | (self1, None) \<Rightarrow>
             (case build_graph env self1 of
                (self2, Some e) \<Rightarrow> (self2, if is_Exception e then Inr False else Inl e)
              | (self2, None) \<Rightarrow>
                  if graph self2 = None then (self2, Inr False) else (self2, Inr True))))"

text \<open>
  The collaborators fail with exceptions of class \<^verbatim>\<open>Exception\<close> only: the task is not
  cancelled while \<^verbatim>\<open>initialize\<close> runs.
\<close>

definition only_exceptions :: "init_env \<Rightarrow> bool" where
  "only_exceptions env =
     ((case pool_result env of Inl e \<Rightarrow> is_Exception e | Inr _ \<Rightarrow> True)
      \<and> (case checkpointer_setup_error env of Some e \<Rightarrow> is_Exception e | None \<Rightarrow> True)
      \<and> (case analyzer_connect_error env of Some e \<Rightarrow> is_Exception e | None \<Rightarrow> True)
      \<and> (case build_error env of Some e \<Rightarrow> is_Exception e | None \<Rightarrow> True))"

section \<open>Emitted-message tracking\<close>

text \<open>
  \<^verbatim>\<open>_cleanup_sent_events\<close>: \<^verbatim>\<open>sent_events\<close> is a dict from message id to \<^verbatim>\<open>True\<close>; its
  first keys are the oldest.
\<close>

definition cleanup_sent_events :: "orchestrator \<Rightarrow> orchestrator" where
  "cleanup_sent_events self =
     (if length (sent_events self) > MAX_SENT_EVENTS
      then (let keys_to_remove = take (MAX_SENT_EVENTS div 2) (map fst (sent_events self))
            in self\<lparr>sent_events := fold dict_pop keys_to_remove (sent_events self)\<rparr>)
      else self)"

definition opt_str :: "string option \<Rightarrow> pyval" where
  "opt_str s = (case s of None \<Rightarrow> VNone | Some t \<Rightarrow> VStr t)"

text \<open>
  \<^verbatim>\<open>_handle_ai_message\<close>, as the list of the events it yields. \<open>filler\<close> is the
  module constant \<^verbatim>\<open>FILLER_MESSAGE_BREAK_TIME\<close>.
\<close>

definition handle_ai_message ::
  "agents_config \<Rightarrow> string option \<Rightarrow> message \<Rightarrow> (string, pyval) pydict \<Rightarrow> event list" where
  "handle_ai_message cfg filler msg data =
     (let has_content = (content msg \<noteq> []);
          original_content = (if has_content then Some (content msg) else None);
          (sanitized_content, was_sanitized, removed_content) =
             sanitize_message (case original_content of None \<Rightarrow> [] | Some c \<Rightarrow> c)
               (sanitized_keywords cfg);
          event_data =
             data @
             [(''content'', opt_str original_content),
              (''sanitized_content'', if was_sanitized then VStr sanitized_content else VNone),
              (''was_sanitized'', VBool was_sanitized),
              (''removed_content'', opt_str removed_content)]
      in if tool_calls msg \<noteq> []
         then
           DebugEvent ''AI message with tool calls''
             (Some (event_data @ [(''tool_calls'', VToolCalls (tool_calls msg))])) #
           (let tool_name = tc_name (hd (tool_calls msg))
            in if \<not> silence_tool_message cfg \<and> has_content \<and> \<not> prefix ''hand_off_'' tool_name
               then [MessageEvent
                       (case filler of
                          None \<Rightarrow> sanitized_content
                        | Some t \<Rightarrow>
                            sanitized_content @ ''<break time='' @ [CHR 0x22] @ t @
                            [CHR 0x22] @ '' />'')
                       (msg_id msg)]
               else [])
         else
           DebugEvent ''AI Message'' (Some event_data) #
           (if has_content then [MessageEvent sanitized_content (msg_id msg)] else []))"

definition handle_tool_message :: "message \<Rightarrow> (string, pyval) pydict \<Rightarrow> event" where
  "handle_tool_message msg data =
     DebugEvent ''Tool call result''
       (Some (data @ [(''tool_call_id'', VStr (tool_call_id msg)),
                      (''content'', VStr (content msg))]))"

text \<open>
  \<^verbatim>\<open>_parse_and_yield_chunks\<close>, run to its end: the orchestrator afterwards and the events
  yielded. With no configuration, reading \<^verbatim>\<open>self.config.sanitized_keywords\<close> raises
  before anything is yielded.
\<close>

definition record_sent :: "message \<Rightarrow> orchestrator \<Rightarrow> orchestrator" where
  "record_sent msg self =
     (case msg_id msg of
        None \<Rightarrow> self
      | Some i \<Rightarrow>
          if i \<noteq> [] then self\<lparr>sent_events := dict_setitem i True (sent_events self)\<rparr>
          else self)"

definition parse_and_yield_chunks ::
  "string option \<Rightarrow> orchestrator \<Rightarrow> message \<Rightarrow> string \<Rightarrow> orchestrator \<times> (py_error + event list)" where
  "parse_and_yield_chunks filler self msg agent_name =
     (if (case msg_id msg of None \<Rightarrow> False | Some i \<Rightarrow> i \<in> fst ` set (sent_events self))
      then (self, Inr [])
      else
        (let self1 = cleanup_sent_events self;
             data = [(''agent'', VStr agent_name), (''id'', opt_str (msg_id msg))]
         in case msg of
              AIMessage _ _ _ \<Rightarrow>
                (case config self1 of
                   None \<Rightarrow> (self1, Inl (Raise AttributeError ''sanitized_keywords''))
                 | Some cfg \<Rightarrow> (record_sent msg self1, Inr (handle_ai_message cfg filler msg data)))
            | ToolMessage _ _ _ \<Rightarrow> (record_sent msg self1, Inr [handle_tool_message msg data])
            | OtherMessage _ _ \<Rightarrow> (record_sent msg self1, Inr [])))"

text \<open>
  The loop of \<^verbatim>\<open>_process_update\<close> over the messages of an update: the events of each
  message in turn, up to the first exception.
\<close>

fun yield_messages ::
  "string option \<Rightarrow> orchestrator \<Rightarrow> message list \<Rightarrow> string \<Rightarrow>
   orchestrator \<times> event list \<times> py_error option" where
  "yield_messages filler self [] agent_name = (self, [], None)"
| "yield_messages filler self (m # ms) agent_name =
     (case parse_and_yield_chunks filler self m agent_name of
        (self1, Inl e) \<Rightarrow> (self1, [], Some e)
      | (self1, Inr evs) \<Rightarrow>
          (case yield_messages filler self1 ms agent_name of
             (self2, evs2, r) \<Rightarrow> (self2, evs @ evs2, r)))"

section \<open>Conversation manager: one queued message\<close>

text \<open>
  The private response queue is an unbounded \<^verbatim>\<open>asyncio.Queue()\<close>, oldest item first;
  \<^verbatim>\<open>put\<close> on it never waits. An item is an event or the close marker \<^verbatim>\<open>None\<close>.
\<close>

type_synonym response_queue = "event option list"

definition rq_put :: "event option \<Rightarrow> response_queue \<Rightarrow> response_queue" where
  "rq_put item q = q @ [item]"

text \<open>
  How the iteration over \<^verbatim>\<open>orchestrator._process_message_internal(message)\<close> under
  \<^verbatim>\<open>asyncio.timeout(timeout)\<close> goes: the responses it yields, and then either the
  generator is exhausted or an exception is raised (by the generator, by the deadline as
  \<^verbatim>\<open>TimeoutError\<close>, or by cancellation of the consumer task).
\<close>

datatype gen_end = Exhausted | Raises py_error

fun put_responses :: "event list \<Rightarrow> response_queue \<Rightarrow> response_queue" where
  "put_responses [] q = q"
| "put_responses (response # rest) q = put_responses rest (rq_put (Some response) q)"

text \<open>
  \<^verbatim>\<open>_process_single_message\<close>: the response queue afterwards and the exception that
  leaves the method, if any. \<open>timeout_text\<close> is the timeout as the f-string prints it.
\<close>

definition process_single_message ::
  "event list \<times> gen_end \<Rightarrow> string \<Rightarrow> response_queue \<Rightarrow> response_queue \<times> py_error option" where
  "process_single_message turn timeout_text response_queue =
     (let q1 = put_responses (fst turn) response_queue
      in case snd turn of
           Exhausted \<Rightarrow> (rq_put None q1, None)
         | Raises e \<Rightarrow>
             if exc_class_of e = TimeoutError
             then (rq_put None
                     (rq_put (Some (ErrorEvent ''processing_timeout''
                                      (''Processing timed out after '' @ timeout_text @ ''s'')))
                        q1),
                   None)
             else if is_Exception e
             then (rq_put None
                     (rq_put (Some (ErrorEvent ''processing_error'' (str_of_error e))) q1),
                   None)
             else (rq_put None q1, Some e))"

text \<open>
  \<^verbatim>\<open>_read_responses\<close> on the items that arrive on the queue: the responses it yields,
  or \<open>None\<close> when the items run out before a close marker, where \<^verbatim>\<open>get()\<close> waits
  for ever.
\<close>

fun read_responses :: "response_queue \<Rightarrow> event list option" where
  "read_responses [] = None"
| "read_responses (None # rest) = Some []"
| "read_responses (Some response # rest) = map_option ((#) response) (read_responses rest)"

text \<open>The error event that ends a turn, if the way the iteration ended calls for one.\<close>

definition terminal_error :: "gen_end \<Rightarrow> string \<Rightarrow> event list" where
  "terminal_error ending timeout_text =
     (case ending of
        Exhausted \<Rightarrow> []
      | Raises e \<Rightarrow>
          if exc_class_of e = TimeoutError
          then [ErrorEvent ''processing_timeout''
                  (''Processing timed out after '' @ timeout_text @ ''s'')]
          else if is_Exception e then [ErrorEvent ''processing_error'' (str_of_error e)]
          else [])"

section \<open>Example configuration\<close>

definition example_agent :: "string \<Rightarrow> string \<Rightarrow> agent_config" where
  "example_agent n p =
     \<lparr>name = n, system_prompt = p, tools = None, model_name = None, responsibility = None\<rparr>"

definition example_config :: "agent_config list \<Rightarrow> router_mode \<Rightarrow> agents_config" where
  "example_config ags m =
     \<lparr>global_system_prompt_template = '''', agents = ags, silence_tool_message = False,
      router_mode = m, orchestrator_prompt = None, security_prompt = ''Auto'',
      crm_integration = None, sanitized_keywords = [''[INTERNAL]'', ''[CRITICAL]'']\<rparr>"

definition example_orchestrator :: orchestrator where
  "example_orchestrator =
     \<lparr>chat_id = ''c1'',
      config = Some (example_config [example_agent ''A'' ''pa'', example_agent ''B'' ''pb''] HANDOFF),
      graph = None, orch_state = Map.empty, sent_events = [], is_first = True,
      checkpointer = None, analyzer_client = None\<rparr>"

text \<open>
  A stream of distinct messages for the examples: message \<open>n\<close> has the identifier
  \<open>m\<close> repeated \<open>n + 1\<close> times and the content \<open>hi\<close>.
\<close>

definition numbered_id :: "nat \<Rightarrow> string" where
  "numbered_id n = replicate (Suc n) (CHR ''m'')"

definition numbered_message :: "nat \<Rightarrow> message" where
  "numbered_message n = AIMessage (Some (numbered_id n)) ''hi'' []"

definition numbered_messages :: "nat \<Rightarrow> message list" where
  "numbered_messages k = map numbered_message [0..<k]"

section \<open>Properties of the reducers\<close>

lemma map_of_dict_setitem: "map_of (dict_setitem k v d) = (map_of d)(k \<mapsto> v)"
  by (simp add: dict_setitem_def update_conv')

lemma map_of_dict_pop: "map_of (dict_pop k d) = (map_of d)(k := None)"
  by (simp add: dict_pop_def delete_conv')

lemma wf_dict_setitem: "wf_dict d \<Longrightarrow> wf_dict (dict_setitem k v d)"
  by (simp add: wf_dict_def dict_setitem_def distinct_update)

lemma wf_dict_pop: "wf_dict d \<Longrightarrow> wf_dict (dict_pop k d)"
  by (simp add: wf_dict_def dict_pop_def distinct_delete)

lemma wf_merge_kv_loop: "wf_dict base \<Longrightarrow> wf_dict (merge_kv_loop base u)"
  by (induction base u rule: merge_kv_loop.induct)
     (auto simp: wf_dict_setitem wf_dict_pop split: option.splits)

lemma map_of_merge_kv_loop:
  "wf_dict u \<Longrightarrow>
   map_of (merge_kv_loop base u) k =
     (case map_of u k of None \<Rightarrow> map_of base k
      | Some None \<Rightarrow> None
      | Some (Some s) \<Rightarrow> Some (Some s))"
proof (induction base u rule: merge_kv_loop.induct)
  case (1 base)
  then show ?case by simp
next
  case (2 base k' v its)
  from "2.prems" have fresh: "map_of its k' = None" and wf: "wf_dict its"
    by (auto simp: wf_dict_def map_of_eq_None_iff)
  show ?case
  proof (cases "k = k'")
    case True
    with fresh "2.IH"[OF wf] show ?thesis
      by (simp add: map_of_dict_setitem map_of_dict_pop split: option.splits)
  next
    case False
    with "2.IH"[OF wf] show ?thesis
      by (simp add: map_of_dict_setitem map_of_dict_pop split: option.splits)
  qed
qed

lemma map_of_merge_kv_reducer:
  "wf_dict u \<Longrightarrow>
   map_of (merge_kv_reducer (Some d) (Some u)) k =
     (case map_of u k of None \<Rightarrow> map_of d k
      | Some None \<Rightarrow> None
      | Some (Some s) \<Rightarrow> Some (Some s))"
  by (cases "u = []")
     (auto simp: merge_kv_reducer_def map_of_merge_kv_loop split: option.splits)

lemma merge_kv_loop_st_other:
  "r \<noteq> base \<Longrightarrow> merge_kv_loop_st st base its ! r = st ! r"
  by (induction st base its rule: merge_kv_loop_st.induct) auto

lemma merge_kv_loop_st_base:
  "base < length st \<Longrightarrow>
   merge_kv_loop_st st base its ! base = merge_kv_loop (st ! base) its"
  by (induction st base its rule: merge_kv_loop_st.induct) auto

lemma merge_kv_reducer_st_result:
  "a < length st \<Longrightarrow> b < length st \<Longrightarrow>
   fst (merge_kv_reducer_st st (Some a) (Some b)) ! snd (merge_kv_reducer_st st (Some a) (Some b)) =
   merge_kv_reducer (Some (st ! a)) (Some (st ! b))"
  by (auto simp: merge_kv_reducer_st_def merge_kv_reducer_def Let_def nth_append
        merge_kv_loop_st_base)

lemma merge_kv_reducer_st_frame:
  "r < length st \<Longrightarrow> fst (merge_kv_reducer_st st a b) ! r = st ! r"
  by (auto simp: merge_kv_reducer_st_def Let_def merge_kv_loop_st_other nth_append)

lemma set_concat_if_not_none:
  "set (concat_if_not_none a b) =
   (case a of None \<Rightarrow> {} | Some x \<Rightarrow> set x) \<union> (case b of None \<Rightarrow> {} | Some y \<Rightarrow> set y)"
  by (auto simp: concat_if_not_none_def split: option.splits)

lemma wf_merge_kv_reducer: "wf_dict d \<Longrightarrow> wf_dict (merge_kv_reducer (Some d) (Some u))"
  by (auto simp: merge_kv_reducer_def wf_dict_def[of "[]"] intro!: wf_merge_kv_loop)

lemma dict_neqI: "map_of d k \<noteq> map_of e k \<Longrightarrow> \<not> dict_eq d e"
  by (auto simp: dict_eq_def)

lemma map_of_wf_None: "wf_dict d \<Longrightarrow> (map_of d k = Some v) = ((k, v) \<in> set d)"
  by (simp add: wf_dict_def)

text \<open>
  Claim C8. \<open>merge_kv_reducer\<close> applies every entry of the update to a copy of the
  base: a key of the update whose value is \<open>None\<close> is absent from the result, a key with a
  string value has that value, and every other key is as in the base. On the store, every
  object that existed before the call, the two arguments among them, is unchanged, and the
  result is a new object. In particular the base \<open>{a: 1, b: 2}\<close> and the update
  \<open>{b: None, c: 3}\<close> give \<open>{a: 1, c: 3}\<close>.
\<close>

theorem merge_kv_reducer_deletes_on_None:
  assumes "wf_dict u" and "a < length st" and "b < length st" and "p < length st"
  shows "map_of (merge_kv_reducer (Some d) (Some u)) k =
           (case map_of u k of None \<Rightarrow> map_of d k
            | Some None \<Rightarrow> None
            | Some (Some s) \<Rightarrow> Some (Some s))
       \<and> fst (merge_kv_reducer_st st (Some a) (Some b)) ! p = st ! p
       \<and> fst (merge_kv_reducer_st st (Some a) (Some b)) !
           snd (merge_kv_reducer_st st (Some a) (Some b)) =
         merge_kv_reducer (Some (st ! a)) (Some (st ! b))
       \<and> merge_kv_reducer (Some [(''a'', Some ''1''), (''b'', Some ''2'')])
           (Some [(''b'', None), (''c'', Some ''3'')]) =
         [(''a'', Some ''1''), (''c'', Some ''3'')]"
proof -
  have ex: "merge_kv_reducer (Some [(''a'', Some ''1''), (''b'', Some ''2'')])
           (Some [(''b'', None), (''c'', Some ''3'')]) =
         [(''a'', Some ''1''), (''c'', Some ''3'')]"
    by (simp add: merge_kv_reducer_def dict_pop_def dict_setitem_def)
  from assms show ?thesis
    by (simp only: map_of_merge_kv_reducer merge_kv_reducer_st_frame
          merge_kv_reducer_st_result ex simp_thms)
qed

theorem merge_kv_reducer_deletes_on_None_witness:
  "map_of (merge_kv_reducer (Some [(''a'', Some ''1''), (''b'', Some ''2'')])
             (Some [(''b'', None), (''c'', Some ''3'')])) ''b'' = None
   \<and> fst (merge_kv_reducer_st
            [[(''a'', Some ''1''), (''b'', Some ''2'')], [(''b'', None), (''c'', Some ''3'')]]
            (Some 0) (Some 1)) ! 0 = [(''a'', Some ''1''), (''b'', Some ''2'')]
   \<and> fst (merge_kv_reducer_st
            [[(''a'', Some ''1''), (''b'', Some ''2'')], [(''b'', None), (''c'', Some ''3'')]]
            (Some 0) (Some 1)) ! 2 = [(''a'', Some ''1''), (''c'', Some ''3'')]"
  using merge_kv_reducer_deletes_on_None
    [of "[(''b'', None), (''c'', Some ''3'')]" 0
        "[[(''a'', Some ''1''), (''b'', Some ''2'')], [(''b'', None), (''c'', Some ''3'')]]"
        1 0 "[(''a'', Some ''1''), (''b'', Some ''2'')]" "''b''"]
  by (simp add: wf_dict_def merge_kv_reducer_st_def)

text \<open>
  Claim C3 as stated fails: on \<open>{a: 1}\<close> and \<open>{a: 2}\<close> the order of the arguments
  decides the value of \<open>a\<close>, and on \<open>{a: 1}\<close>, \<open>{}\<close>, \<open>{a: None}\<close> the two
  bracketings differ.
\<close>

theorem merge_kv_reducer_order_counterexample:
  "\<not> dict_eq (merge_kv_reducer (Some [(''a'', Some ''1'')]) (Some [(''a'', Some ''2'')]))
              (merge_kv_reducer (Some [(''a'', Some ''2'')]) (Some [(''a'', Some ''1'')]))
   \<and> \<not> dict_eq
         (merge_kv_reducer (Some (merge_kv_reducer (Some [(''a'', Some ''1'')]) (Some [])))
            (Some [(''a'', None)]))
         (merge_kv_reducer (Some [(''a'', Some ''1'')])
            (Some (merge_kv_reducer (Some []) (Some [(''a'', None)]))))"
  by (intro conjI dict_neqI[of _ "''a''"])
     (simp_all add: merge_kv_reducer_def dict_pop_def dict_setitem_def)

text \<open>
  Claim C3, amended. \<open>concat_if_not_none\<close> is commutative and associative up to the
  set of elements of the result. \<open>merge_kv_reducer\<close> is a last-write-wins overlay: it
  commutes on two dicts that carry no \<open>None\<close> value and agree on every shared key,
  and it is associative when the last update carries no \<open>None\<close> entry for a key of the
  first dict.
\<close>

theorem reducers_algebra:
  assumes "wf_dict A" and "wf_dict B" and "wf_dict C"
  shows "set (concat_if_not_none L1 L2) = set (concat_if_not_none L2 L1)
       \<and> set (concat_if_not_none (Some (concat_if_not_none L1 L2)) L3) =
         set (concat_if_not_none L1 (Some (concat_if_not_none L2 L3)))
       \<and> (None \<notin> snd ` set A \<and> None \<notin> snd ` set B
            \<and> (\<forall>k \<in> fst ` set A \<inter> fst ` set B. map_of A k = map_of B k)
          \<longrightarrow> dict_eq (merge_kv_reducer (Some A) (Some B)) (merge_kv_reducer (Some B) (Some A)))
       \<and> ((\<forall>k \<in> fst ` set A. (k, None) \<notin> set C)
          \<longrightarrow> dict_eq (merge_kv_reducer (Some (merge_kv_reducer (Some A) (Some B))) (Some C))
                (merge_kv_reducer (Some A) (Some (merge_kv_reducer (Some B) (Some C)))))"
proof (intro conjI impI)
  show "set (concat_if_not_none L1 L2) = set (concat_if_not_none L2 L1)"
    by (simp add: set_concat_if_not_none Un_commute)
  show "set (concat_if_not_none (Some (concat_if_not_none L1 L2)) L3) =
         set (concat_if_not_none L1 (Some (concat_if_not_none L2 L3)))"
    by (simp add: set_concat_if_not_none Un_assoc)
next
  assume h: "None \<notin> snd ` set A \<and> None \<notin> snd ` set B
            \<and> (\<forall>k \<in> fst ` set A \<inter> fst ` set B. map_of A k = map_of B k)"
  show "dict_eq (merge_kv_reducer (Some A) (Some B)) (merge_kv_reducer (Some B) (Some A))"
    unfolding dict_eq_def
  proof
    fix k
    have nA: "map_of A k \<noteq> Some None" and nB: "map_of B k \<noteq> Some None"
      using h by (auto dest!: map_of_SomeD simp: image_iff) 
    have agree: "map_of A k = None \<or> map_of B k = None \<or> map_of A k = map_of B k"
      using h by (auto simp: map_of_eq_None_iff)
    show "map_of (merge_kv_reducer (Some A) (Some B)) k =
          map_of (merge_kv_reducer (Some B) (Some A)) k"
      using nA nB agree
      by (auto simp: map_of_merge_kv_reducer assms split: option.splits)
  qed
next
  assume h: "\<forall>k \<in> fst ` set A. (k, None) \<notin> set C"
  have wfBC: "wf_dict (merge_kv_reducer (Some B) (Some C))"
    by (rule wf_merge_kv_reducer) (rule assms)
  show "dict_eq (merge_kv_reducer (Some (merge_kv_reducer (Some A) (Some B))) (Some C))
                (merge_kv_reducer (Some A) (Some (merge_kv_reducer (Some B) (Some C))))"
    unfolding dict_eq_def
  proof
    fix k
    have "map_of C k = Some None \<Longrightarrow> map_of A k = None"
      using h by (auto dest!: map_of_SomeD simp: map_of_eq_None_iff)
    then show "map_of (merge_kv_reducer (Some (merge_kv_reducer (Some A) (Some B))) (Some C)) k =
          map_of (merge_kv_reducer (Some A) (Some (merge_kv_reducer (Some B) (Some C)))) k"
      by (simp add: map_of_merge_kv_reducer assms wfBC split: option.splits)
  qed
qed

theorem reducers_algebra_witness:
  "set (concat_if_not_none (Some [''x'', ''y'']) (Some [''y'', ''z''])) =
     set (concat_if_not_none (Some [''y'', ''z'']) (Some [''x'', ''y'']))
   \<and> set (concat_if_not_none (Some [''x'', ''y'']) (Some [''y'', ''z''])) = {''x'', ''y'', ''z''}
   \<and> dict_eq (merge_kv_reducer (Some [(''a'', Some ''1'')]) (Some [(''b'', Some ''2'')]))
             (merge_kv_reducer (Some [(''b'', Some ''2'')]) (Some [(''a'', Some ''1'')]))
   \<and> dict_eq
       (merge_kv_reducer
          (Some (merge_kv_reducer (Some [(''a'', Some ''1'')]) (Some [(''b'', Some ''2'')])))
          (Some [(''b'', None)]))
       (merge_kv_reducer (Some [(''a'', Some ''1'')])
          (Some (merge_kv_reducer (Some [(''b'', Some ''2'')]) (Some [(''b'', None)]))))"
  using reducers_algebra
    [of "[(''a'', Some ''1'')]" "[(''b'', Some ''2'')]" "[(''b'', None)]"
        "Some [''x'', ''y'']" "Some [''y'', ''z'']" None]
  by (simp add: wf_dict_def concat_if_not_none_def insert_commute)

section \<open>Properties of the sanitizer\<close>

lemma find_append_list:
  "List.find P (xs @ ys) = (case List.find P xs of None \<Rightarrow> List.find P ys | Some x \<Rightarrow> Some x)"
  by (induction xs) auto

lemma occurs_at_Cons_Suc: "occurs_at sub (c # cs) (Suc i) = occurs_at sub cs i"
  by (simp add: occurs_at_def)

lemma occurs_at_0: "occurs_at sub s 0 = prefix sub s"
  by (simp add: occurs_at_def)

lemma str_find_Some:
  "str_find s sub = Some i \<Longrightarrow> occurs_at sub s i \<and> (\<forall>j<i. \<not> occurs_at sub s j)"
proof (induction s arbitrary: i)
  case Nil
  then show ?case by (auto simp: occurs_at_def split: if_splits)
next
  case (Cons c cs)
  show ?case
  proof (cases "prefix sub (c # cs)")
    case True
    with Cons.prems show ?thesis by (simp add: occurs_at_0)
  next
    case False
    with Cons.prems obtain i' where i': "str_find cs sub = Some i'" "i = Suc i'"
      by auto
    from Cons.IH[OF i'(1)] have ih: "occurs_at sub cs i'" "\<forall>j<i'. \<not> occurs_at sub cs j"
      by auto
    have "\<not> occurs_at sub (c # cs) j" if "j < i" for j
    proof (cases j)
      case 0
      with False show ?thesis by (simp add: occurs_at_0)
    next
      case (Suc j')
      with that i'(2) ih(2) show ?thesis by (simp add: occurs_at_Cons_Suc)
    qed
    with ih(1) i'(2) show ?thesis by (simp add: occurs_at_Cons_Suc)
  qed
qed

lemma str_find_None: "str_find s sub = None \<Longrightarrow> \<not> occurs_at sub s i"
proof (induction s arbitrary: i)
  case Nil
  then show ?case by (auto simp: occurs_at_def split: if_splits)
next
  case (Cons c cs)
  then show ?case
    by (cases i) (auto simp: occurs_at_0 occurs_at_Cons_Suc split: if_splits)
qed

lemma str_find_less: "s \<noteq> [] \<Longrightarrow> str_find s sub = Some i \<Longrightarrow> i < length s"
proof -
  assume ne: "s \<noteq> []" and f: "str_find s sub = Some i"
  from str_find_Some[OF f] have occ: "occurs_at sub s i" and least: "\<forall>j<i. \<not> occurs_at sub s j"
    by auto
  show ?thesis
  proof (cases "sub = []")
    case True
    then have "occurs_at sub s 0" by (simp add: occurs_at_def)
    with least have "i = 0" by auto
    with ne show ?thesis by simp
  next
    case False
    with occ have "drop i s \<noteq> []" by (auto simp: occurs_at_def)
    then show ?thesis by simp
  qed
qed

lemma scan_inv_step:
  assumes ne: "message \<noteq> []" and inv: "scan_inv message seen (e, mm)"
  shows "scan_inv message (seen @ [marker])
           (let pos = py_find message marker
            in if pos \<noteq> - 1 \<and> pos < e then (pos, Some marker) else (e, mm))"
proof (cases "str_find message marker")
  case None
  with inv show ?thesis
    by (auto simp: scan_inv_def py_find_def find_append_list split: option.splits)
next
  case (Some q)
  with ne have q: "q < length message" by (simp add: str_find_less)
  show ?thesis
  proof (cases mm)
    case None
    with inv have "List.find (\<lambda>m'. str_find message m' = Some q) seen = None"
      by (auto simp: scan_inv_def find_None_iff)
    with None inv Some q show ?thesis
      by (auto simp: scan_inv_def py_find_def find_append_list)
  next
    case (Some m)
    with inv obtain p where p: "e = int p" "p < length message"
        "\<forall>m' \<in> set seen. \<forall>q. str_find message m' = Some q \<longrightarrow> p \<le> q"
        "List.find (\<lambda>m'. str_find message m' = Some p) seen = Some m"
      by (auto simp: scan_inv_def)
    show ?thesis
    proof (cases "q < p")
      case True
      with p have "List.find (\<lambda>m'. str_find message m' = Some q) seen = None"
        by (auto simp: find_None_iff)
      with True p \<open>str_find message marker = Some q\<close> q show ?thesis
        by (auto simp: scan_inv_def py_find_def find_append_list intro!: exI[of _ q])
    next
      case False
      with p \<open>str_find message marker = Some q\<close> Some show ?thesis
        by (auto simp: scan_inv_def py_find_def find_append_list intro!: exI[of _ p])
    qed
  qed
qed

lemma scan_inv_loop:
  "message \<noteq> [] \<Longrightarrow> scan_inv message seen acc \<Longrightarrow>
   scan_inv message (seen @ ms) (scan_markers message ms acc)"
proof (induction ms arbitrary: seen acc)
  case Nil
  then show ?case by simp
next
  case (Cons marker rest)
  obtain e mm where acc: "acc = (e, mm)" by (cases acc)
  let ?acc' = "(let pos = py_find message marker
                in if pos \<noteq> - 1 \<and> pos < e then (pos, Some marker) else (e, mm))"
  from Cons.prems acc have "scan_inv message (seen @ [marker]) ?acc'"
    by (simp add: scan_inv_step)
  from Cons.IH[OF Cons.prems(1) this]
  have "scan_inv message (seen @ marker # rest) (scan_markers message rest ?acc')"
    by simp
  moreover have "scan_markers message (marker # rest) acc = scan_markers message rest ?acc'"
    by (simp add: acc Let_def)
  ultimately show ?case by simp
qed

lemma scan_markers_inv:
  "message \<noteq> [] \<Longrightarrow>
   scan_inv message markers (scan_markers message markers (int (length message), None))"
  using scan_inv_loop[of message "[]" "(int (length message), None)" markers]
  by (simp add: scan_inv_def)


lemma sanitize_message_nonempty:
  assumes "message \<noteq> []"
  shows "((\<forall>m \<in> set markers. \<forall>i. \<not> occurs_at m message i) \<longrightarrow>
            sanitize_message message markers = (message, False, None))
       \<and> ((\<exists>m \<in> set markers. occurs_at m message p)
            \<and> (\<forall>m \<in> set markers. \<forall>j<p. \<not> occurs_at m message j) \<longrightarrow>
            sanitize_message message markers =
              (py_strip (take p message), True, Some (py_strip (drop p message)))
            \<and> snd (scan_markers message markers (int (length message), None)) =
              List.find (\<lambda>m. occurs_at m message p) markers)
       \<and> sanitize_message ''hello [INTERNAL] secret'' [''[INTERNAL]'', ''[CRITICAL]''] =
           (''hello'', True, Some ''[INTERNAL] secret'')
       \<and> ((\<forall>m \<in> set markers. \<forall>i. \<not> occurs_at m ''hello world'' i) \<longrightarrow>
            sanitize_message ''hello world'' markers = (''hello world'', False, None))"
proof -
  have none: "sanitize_message msg markers = (msg, False, None)"
    if ne: "msg \<noteq> []" and no: "\<forall>m \<in> set markers. \<forall>i. \<not> occurs_at m msg i" for msg
  proof (cases "markers = []")
    case True
    then show ?thesis by (simp add: sanitize_message_def)
  next
    case False
    obtain e mm where sc: "scan_markers msg markers (int (length msg), None) = (e, mm)"
      by (cases "scan_markers msg markers (int (length msg), None)")
    have "mm = None"
    proof (rule ccontr)
      assume "mm \<noteq> None"
      then obtain m where m: "mm = Some m" by auto
      from scan_markers_inv[OF ne, of markers] sc m
      obtain q where "List.find (\<lambda>m'. str_find msg m' = Some q) markers = Some m"
        by (auto simp: scan_inv_def)
      then have "m \<in> set markers" "str_find msg m = Some q"
        by (auto simp: find_Some_iff)
      with no str_find_Some[of msg m q] show False by auto
    qed
    with sc show ?thesis by (simp add: sanitize_message_def)
  qed
  have some: "sanitize_message message markers =
              (py_strip (take p message), True, Some (py_strip (drop p message)))
            \<and> snd (scan_markers message markers (int (length message), None)) =
              List.find (\<lambda>m. occurs_at m message p) markers"
    if ex: "\<exists>m \<in> set markers. occurs_at m message p"
      and least: "\<forall>m \<in> set markers. \<forall>j<p. \<not> occurs_at m message j"
  proof -
    from ex obtain m0 where m0: "m0 \<in> set markers" "occurs_at m0 message p" by auto
    then have mne: "markers \<noteq> []" by auto
    have find_iff: "(str_find message m = Some p) = occurs_at m message p"
      if "m \<in> set markers" for m
    proof
      assume "str_find message m = Some p"
      then show "occurs_at m message p" by (simp add: str_find_Some)
    next
      assume occ: "occurs_at m message p"
      show "str_find message m = Some p"
      proof (cases "str_find message m")
        case None
        with occ show ?thesis by (simp add: str_find_None)
      next
        case (Some q)
        from str_find_Some[OF Some] have q: "occurs_at m message q" "\<forall>j<q. \<not> occurs_at m message j"
          by auto
        from q(1) least that have "\<not> q < p" by auto
        moreover from q(2) occ have "\<not> p < q" by auto
        ultimately show ?thesis using Some by simp
      qed
    qed
    obtain e mm where sc: "scan_markers message markers (int (length message), None) = (e, mm)"
      by (cases "scan_markers message markers (int (length message), None)")
    from scan_markers_inv[OF assms, of markers] sc
    have inv: "scan_inv message markers (e, mm)" by simp
    have "mm \<noteq> None"
    proof
      assume "mm = None"
      with inv m0(1) have "str_find message m0 = None" by (auto simp: scan_inv_def)
      with m0(2) show False by (simp add: str_find_None)
    qed
    then obtain m where m: "mm = Some m" by auto
    with inv obtain q where q: "e = int q"
        "\<forall>m' \<in> set markers. \<forall>r. str_find message m' = Some r \<longrightarrow> q \<le> r"
        "List.find (\<lambda>m'. str_find message m' = Some q) markers = Some m"
      by (auto simp: scan_inv_def)
    from q(3) have mq: "m \<in> set markers" "str_find message m = Some q"
      by (auto simp: find_Some_iff)
    from str_find_Some[OF mq(2)] least mq(1) have "\<not> q < p" by auto
    moreover from find_iff[OF m0(1)] m0(2) q(2) m0(1) have "q \<le> p" by auto
    ultimately have qp: "q = p" by simp
    have "List.find (\<lambda>m'. str_find message m' = Some p) markers =
          List.find (\<lambda>m. occurs_at m message p) markers"
      by (rule find_cong) (simp_all add: find_iff)
    with sc m q(1) q(3) qp assms mne show ?thesis
      by (simp add: sanitize_message_def)
  qed
  have ex1: "sanitize_message ''hello [INTERNAL] secret'' [''[INTERNAL]'', ''[CRITICAL]''] =
           (''hello'', True, Some ''[INTERNAL] secret'')"
    by (simp add: sanitize_message_def py_find_def py_strip_def py_isspace_def)
  from none[OF assms] none[of "''hello world''"] some ex1 show ?thesis
    by blast
qed

text \<open>
  Claim C5, amended. For every text and marker list other than the empty text with an
  empty-string marker: if no marker occurs in the text, \<open>sanitize_message\<close> returns the
  text unchanged with \<open>False\<close> and \<open>None\<close>; if \<open>p\<close> is the earliest offset at which any
  marker occurs, it returns the stripped prefix before \<open>p\<close>, \<open>True\<close> and the stripped
  suffix from \<open>p\<close>, and the marker the loop settles on is the first-declared marker that
  occurs at \<open>p\<close>. On the empty text it returns the text unchanged with \<open>False\<close> and
  \<open>None\<close>, whatever the markers are. The two examples of the specification hold.
\<close>

theorem sanitize_message_earliest_marker:
  assumes "message \<noteq> [] \<or> [] \<notin> set markers"
  shows "((\<forall>m \<in> set markers. \<forall>i. \<not> occurs_at m message i) \<longrightarrow>
            sanitize_message message markers = (message, False, None))
       \<and> ((\<exists>m \<in> set markers. occurs_at m message p)
            \<and> (\<forall>m \<in> set markers. \<forall>j<p. \<not> occurs_at m message j) \<longrightarrow>
            sanitize_message message markers =
              (py_strip (take p message), True, Some (py_strip (drop p message)))
            \<and> snd (scan_markers message markers (int (length message), None)) =
              List.find (\<lambda>m. occurs_at m message p) markers)
       \<and> sanitize_message ''hello [INTERNAL] secret'' [''[INTERNAL]'', ''[CRITICAL]''] =
           (''hello'', True, Some ''[INTERNAL] secret'')
       \<and> ((\<forall>m \<in> set markers. \<forall>i. \<not> occurs_at m ''hello world'' i) \<longrightarrow>
            sanitize_message ''hello world'' markers = (''hello world'', False, None))
       \<and> sanitize_message [] any_markers = ([], False, None)"
proof (cases "message = []")
  case False
  have "sanitize_message [] any_markers = ([], False, None)"
    by (simp add: sanitize_message_def)
  with sanitize_message_nonempty[OF False, of markers p] show ?thesis
    by blast
next
  case True
  have empty: "sanitize_message [] any_markers = ([], False, None)"
    by (simp add: sanitize_message_def)
  from assms True have no_empty: "[] \<notin> set markers" by simp
  have never: "\<not> occurs_at m message i" if "m \<in> set markers" for m i
    using that no_empty True by (auto simp: occurs_at_def)
  have unchanged: "sanitize_message message markers = (message, False, None)"
    using True by (simp add: sanitize_message_def)
  have "''x'' \<noteq> []" by simp
  from sanitize_message_nonempty[OF this, of markers 0] never unchanged empty show ?thesis
    by blast
qed

theorem sanitize_message_earliest_marker_witness:
  "sanitize_message ''a [X] [Y]'' [''[Y]'', ''[X] ['', ''[X]''] = (''a'', True, Some ''[X] [Y]'')
   \<and> snd (scan_markers ''a [X] [Y]'' [''[Y]'', ''[X] ['', ''[X]''] (9, None)) = Some ''[X] [''
   \<and> sanitize_message ''ab'' [''[Y]''] = (''ab'', False, None)
   \<and> sanitize_message [] [[], ''x''] = ([], False, None)"
proof -
  have a: "\<exists>m \<in> set [''[Y]'', ''[X] ['', ''[X]'']. occurs_at m ''a [X] [Y]'' 2"
    by (simp add: occurs_at_def)
  have b: "\<forall>m \<in> set [''[Y]'', ''[X] ['', ''[X]'']. \<forall>j<2. \<not> occurs_at m ''a [X] [Y]'' j"
    by (simp add: occurs_at_def less_Suc_eq numeral_2_eq_2)
  have c: "\<forall>m \<in> set [''[Y]'']. \<forall>i. \<not> occurs_at m ''ab'' i"
  proof (intro ballI allI)
    fix m i assume "m \<in> set [''[Y]'']"
    then have m: "m = ''[Y]''" by simp
    have "str_find ''ab'' ''[Y]'' = None" by simp
    then show "\<not> occurs_at m ''ab'' i" unfolding m by (rule str_find_None)
  qed
  have ne: "''a [X] [Y]'' \<noteq> [] \<or> [] \<notin> set [''[Y]'', ''[X] ['', ''[X]'']"
    "''ab'' \<noteq> [] \<or> [] \<notin> set [''[Y]'']"
    by simp_all
  from sanitize_message_earliest_marker[OF ne(1), of 2 "[[], ''x'']"] a b
       sanitize_message_earliest_marker[OF ne(2), of 0] c
  show ?thesis
    by (simp add: occurs_at_def py_strip_def py_isspace_def)
qed

text \<open>
  Claim C5 as stated fails on the empty text with an empty-string marker: the marker
  occurs at offset 0, and the guard at the head of the function returns the text with
  \<open>False\<close> and \<open>None\<close>.
\<close>

theorem sanitize_message_empty_text_counterexample:
  "occurs_at [] [] 0 \<and> [] \<in> set [[]] \<and> sanitize_message [] [[]] = ([], False, None)
   \<and> sanitize_message [] [[]] \<noteq> (py_strip (take 0 []), True, Some (py_strip (drop 0 [])))"
  by (simp add: occurs_at_def sanitize_message_def)

section \<open>Properties of the metrics queue\<close>

lemma emit_ttft_step:
  assumes "0 < cap" and "length xs \<le> cap"
  shows "emit_ttft \<lparr>ttft_queue = Some \<lparr>queue_items = xs, maxsize = int cap\<rparr>,
                    queue_overflow_count = c\<rparr> event =
         (if length xs < cap
          then \<lparr>ttft_queue = Some \<lparr>queue_items = xs @ [event], maxsize = int cap\<rparr>,
                queue_overflow_count = c\<rparr>
          else \<lparr>ttft_queue = Some \<lparr>queue_items = tl xs @ [event], maxsize = int cap\<rparr>,
                queue_overflow_count = c + 1\<rparr>)"
proof (cases "length xs < cap")
  case True
  then show ?thesis
    by (simp add: emit_ttft_def put_nowait_def full_def)
next
  case False
  with assms have len: "length xs = cap" by simp
  with assms obtain y ys where xs: "xs = y # ys" by (cases xs) auto
  with len show ?thesis
    by (auto simp: emit_ttft_def put_nowait_def get_nowait_def full_def)
qed

lemma emit_all_general:
  assumes "0 < cap"
  shows "length xs \<le> cap \<Longrightarrow>
         emit_all \<lparr>ttft_queue = Some \<lparr>queue_items = xs, maxsize = int cap\<rparr>,
                   queue_overflow_count = c\<rparr> es =
         \<lparr>ttft_queue =
            Some \<lparr>queue_items = drop (length xs + length es - cap) (xs @ es), maxsize = int cap\<rparr>,
          queue_overflow_count = c + int (length xs + length es - cap)\<rparr>"
proof (induction es arbitrary: xs c)
  case Nil
  then show ?case by simp
next
  case (Cons e es)
  show ?case
  proof (cases "length xs < cap")
    case True
    then have le: "length (xs @ [e]) \<le> cap" by simp
    from True Cons.prems assms Cons.IH[OF le, of c] show ?thesis
      by (simp add: emit_ttft_step)
  next
    case False
    with Cons.prems have len: "length xs = cap" by simp
    with assms obtain y ys where xs: "xs = y # ys" by (cases xs) auto
    have le: "length (tl xs @ [e]) \<le> cap" using len xs by simp
    from len assms Cons.prems Cons.IH[OF le, of "c + 1"] xs show ?thesis
      by (simp add: emit_ttft_step)
  qed
qed

text \<open>
  Claim C9. On a queue of capacity \<open>cap > 0\<close> holding at most \<open>cap\<close> events, a push
  below capacity appends the event and leaves the overflow counter; a push at capacity
  removes the oldest event, appends the new one and adds one to the counter. Pushing the
  events \<open>es\<close> into the empty queue leaves the newest \<open>cap\<close> of them and counts the
  others; \<open>cap + 1\<close> pushes leave all but the first event and a counter of 1.
\<close>

theorem emit_ttft_overflow_drops_oldest:
  assumes "0 < cap" and "length xs \<le> cap"
  shows "emit_ttft \<lparr>ttft_queue = Some \<lparr>queue_items = xs, maxsize = int cap\<rparr>,
                    queue_overflow_count = c\<rparr> event =
         (if length xs < cap
          then \<lparr>ttft_queue = Some \<lparr>queue_items = xs @ [event], maxsize = int cap\<rparr>,
                queue_overflow_count = c\<rparr>
          else \<lparr>ttft_queue = Some \<lparr>queue_items = tl xs @ [event], maxsize = int cap\<rparr>,
                queue_overflow_count = c + 1\<rparr>)
       \<and> emit_all \<lparr>ttft_queue = Some \<lparr>queue_items = [], maxsize = int cap\<rparr>,
                   queue_overflow_count = 0\<rparr> es =
         \<lparr>ttft_queue = Some \<lparr>queue_items = drop (length es - cap) es, maxsize = int cap\<rparr>,
          queue_overflow_count = int (length es - cap)\<rparr>
       \<and> (length es = cap + 1 \<longrightarrow>
          emit_all \<lparr>ttft_queue = Some \<lparr>queue_items = [], maxsize = int cap\<rparr>,
                    queue_overflow_count = 0\<rparr> es =
          \<lparr>ttft_queue = Some \<lparr>queue_items = tl es, maxsize = int cap\<rparr>,
           queue_overflow_count = 1\<rparr>)"
proof -
  have all: "emit_all \<lparr>ttft_queue = Some \<lparr>queue_items = [], maxsize = int cap\<rparr>,
                   queue_overflow_count = 0\<rparr> es =
         \<lparr>ttft_queue = Some \<lparr>queue_items = drop (length es - cap) es, maxsize = int cap\<rparr>,
          queue_overflow_count = int (length es - cap)\<rparr>"
    using emit_all_general[OF assms(1), of "[]" 0 es] by simp
  show ?thesis
    using emit_ttft_step[OF assms] all by (simp add: drop_Suc)
qed

theorem emit_ttft_overflow_drops_oldest_witness:
  "emit_all \<lparr>ttft_queue = Some \<lparr>queue_items = [], maxsize = 2\<rparr>, queue_overflow_count = 0\<rparr>
     [''e1'', ''e2'', ''e3''] =
   \<lparr>ttft_queue = Some \<lparr>queue_items = [''e2'', ''e3''], maxsize = 2\<rparr>, queue_overflow_count = 1\<rparr>
   \<and> emit_ttft \<lparr>ttft_queue = Some \<lparr>queue_items = [''e1'', ''e2''], maxsize = 2\<rparr>,
                 queue_overflow_count = 0\<rparr> ''e3'' =
     \<lparr>ttft_queue = Some \<lparr>queue_items = [''e2'', ''e3''], maxsize = 2\<rparr>, queue_overflow_count = 1\<rparr>"
  using emit_ttft_overflow_drops_oldest[of 2 "[''e1'', ''e2'']" 0 "''e3''" "[''e1'', ''e2'', ''e3'']"]
  by simp

section \<open>Properties of the hand-off tool\<close>

lemma find_name_None: "T \<notin> set (map name ags) \<Longrightarrow> List.find (\<lambda>agent. name agent = T) ags = None"
  by (auto simp: find_None_iff)

lemma find_name_first:
  "T \<notin> set (map name pre) \<Longrightarrow> name c = T \<Longrightarrow>
   List.find (\<lambda>agent. name agent = T) (pre @ c # post) = Some c"
  by (induction pre) auto

text \<open>
  Claim C10. The tool made for the target \<open>T\<close> is named \<open>hand_off_to_T\<close>. Run on a
  state with the transcript \<open>ms\<close> it returns a command to go to \<open>T\<close> in the parent
  graph whose update has exactly three entries: the transcript without its last message,
  the active agent \<open>T\<close>, and as the active agent's prompt the system prompt of the first
  configured agent named \<open>T\<close>, or the empty string when no agent has that name.
\<close>

theorem handoff_update_drops_last_message:
  "fst (make_handoff_tool T cfg) = ''hand_off_to_'' @ T
   \<and> (T \<notin> set (map name (agents cfg)) \<longrightarrow>
        snd (make_handoff_tool T cfg) (st(''messages'' \<mapsto> VMessages ms)) =
          Inr \<lparr>goto = T, cmd_graph = Some PARENT,
               update = [(''messages'', VMessages (take (length ms - 1) ms)),
                         (''active_agent'', VStr T),
                         (''active_agent_prompt'', VStr [])]\<rparr>)
   \<and> (agents cfg = pre @ c # post \<and> name c = T \<and> T \<notin> set (map name pre) \<longrightarrow>
        snd (make_handoff_tool T cfg) (st(''messages'' \<mapsto> VMessages ms)) =
          Inr \<lparr>goto = T, cmd_graph = Some PARENT,
               update = [(''messages'', VMessages (take (length ms - 1) ms)),
                         (''active_agent'', VStr T),
                         (''active_agent_prompt'', VStr (system_prompt c))]\<rparr>)"
proof (intro conjI impI)
  show "fst (make_handoff_tool T cfg) = ''hand_off_to_'' @ T"
    by (simp add: make_handoff_tool_def)
next
  assume "T \<notin> set (map name (agents cfg))"
  then have "List.find (\<lambda>agent. name agent = T) (agents cfg) = None"
    by (rule find_name_None)
  then show "snd (make_handoff_tool T cfg) (st(''messages'' \<mapsto> VMessages ms)) =
          Inr \<lparr>goto = T, cmd_graph = Some PARENT,
               update = [(''messages'', VMessages (take (length ms - 1) ms)),
                         (''active_agent'', VStr T),
                         (''active_agent_prompt'', VStr [])]\<rparr>"
    by (simp add: make_handoff_tool_def handoff_to_agent_def slice_butlast_def
          butlast_conv_take)
next
  assume "agents cfg = pre @ c # post \<and> name c = T \<and> T \<notin> set (map name pre)"
  then have "List.find (\<lambda>agent. name agent = T) (agents cfg) = Some c"
    by (simp add: find_name_first)
  then show "snd (make_handoff_tool T cfg) (st(''messages'' \<mapsto> VMessages ms)) =
          Inr \<lparr>goto = T, cmd_graph = Some PARENT,
               update = [(''messages'', VMessages (take (length ms - 1) ms)),
                         (''active_agent'', VStr T),
                         (''active_agent_prompt'', VStr (system_prompt c))]\<rparr>"
    by (simp add: make_handoff_tool_def handoff_to_agent_def slice_butlast_def
          butlast_conv_take)
qed

theorem handoff_update_drops_last_message_witness:
  "snd (make_handoff_tool ''B''
          (example_config [example_agent ''A'' ''pa'', example_agent ''B'' ''pb''] HANDOFF))
     [''messages'' \<mapsto>
        VMessages [OtherMessage None ''transfer me'',
                   AIMessage (Some ''m1'') [] [ToolCall ''hand_off_to_B'']]] =
   Inr \<lparr>goto = ''B'', cmd_graph = Some ''__parent__'',
        update = [(''messages'', VMessages [OtherMessage None ''transfer me'']),
                  (''active_agent'', VStr ''B''),
                  (''active_agent_prompt'', VStr ''pb'')]\<rparr>
   \<and> snd (make_handoff_tool ''Z''
          (example_config [example_agent ''A'' ''pa'', example_agent ''B'' ''pb''] HANDOFF))
     [''messages'' \<mapsto> VMessages []] =
   Inr \<lparr>goto = ''Z'', cmd_graph = Some ''__parent__'',
        update = [(''messages'', VMessages []),
                  (''active_agent'', VStr ''Z''),
                  (''active_agent_prompt'', VStr [])]\<rparr>"
  using handoff_update_drops_last_message
          [where T = "''B''"
             and cfg = "example_config [example_agent ''A'' ''pa'', example_agent ''B'' ''pb''] HANDOFF"
             and pre = "[example_agent ''A'' ''pa'']" and c = "example_agent ''B'' ''pb''"
             and post = "[]" and st = Map.empty
             and ms = "[OtherMessage None ''transfer me'',
                        AIMessage (Some ''m1'') [] [ToolCall ''hand_off_to_B'']]"]
        handoff_update_drops_last_message
          [where T = "''Z''"
             and cfg = "example_config [example_agent ''A'' ''pa'', example_agent ''B'' ''pb''] HANDOFF"
             and st = Map.empty and ms = "[]"]
  by (simp add: example_config_def example_agent_def PARENT_def)

section \<open>Properties of arbitrated routing\<close>

lemma find_agent_None:
  "\<forall>a \<in> set ags. VStr (name a) \<noteq> v \<Longrightarrow> List.find (\<lambda>agent. VStr (name agent) = v) ags = None"
  by (auto simp: find_None_iff)

lemma decision_node_unconfigured:
  assumes "st ''orchestrator_suggested_agent'' = None
           \<or> (\<exists>v. st ''orchestrator_suggested_agent'' = Some v
                  \<and> (\<forall>a \<in> set (agents cfg). VStr (name a) \<noteq> v))"
  shows "decision_node cfg st = Inr \<lparr>goto = ANALYZER_NODE, cmd_graph = None, update = []\<rparr>
         \<or> (decision_node cfg st = Inl (Raise KeyError ''active_agent'')
            \<and> st ''active_agent'' = None)"
  using assms
  by (auto simp: decision_node_def create_agent_switch_command_def find_agent_None
           split: option.splits)

lemma decision_after_orchestrator:
  assumes inv: "py_strip response = [] \<or> py_strip response \<notin> set (map name (agents cfg))"
    and cur: "st ''active_agent'' \<noteq> None"
    and same: "s' ''active_agent'' = st ''active_agent''"
    and sug: "s' ''orchestrator_suggested_agent'' =
              map_of (orchestrator_node cfg st response) ''orchestrator_suggested_agent''"
  shows "decision_node cfg s' = Inr \<lparr>goto = ANALYZER_NODE, cmd_graph = None, update = []\<rparr>"
proof -
  from cur obtain v where v: "st ''active_agent'' = Some v" by auto
  show ?thesis
  proof (cases "agents cfg = []")
    case True
    with sug show ?thesis
      by (simp add: orchestrator_node_def decision_node_def)
  next
    case False
    show ?thesis
    proof (cases "py_strip response \<in> set (map name (agents cfg))")
      case True
      with inv have "py_strip response = []" by auto
      with True False sug show ?thesis
        by (simp add: orchestrator_node_def decision_node_def Let_def)
    next
      case notin: False
      with False sug v have "s' ''orchestrator_suggested_agent'' = Some v"
        by (simp add: orchestrator_node_def Let_def)
      with same v show ?thesis
        by (simp add: decision_node_def)
    qed
  qed
qed

text \<open>
  Claim C6. At the decision node, a suggestion that is missing or is not the name of a
  configured agent leads to the analyzer node with an empty update, so the active agent
  and its prompt stay as they are (the node raises \<open>KeyError\<close> instead when the state
  has no active agent at all). When the reply of the arbiter, stripped, is empty or not a
  configured name, the suggestion the arbiter node returns has this effect on every state
  that has the same active agent as the state the arbiter saw.
\<close>

theorem decision_keeps_agent_on_invalid_suggestion:
  "((st ''orchestrator_suggested_agent'' = None
      \<or> (\<exists>v. st ''orchestrator_suggested_agent'' = Some v
             \<and> (\<forall>a \<in> set (agents cfg). VStr (name a) \<noteq> v))) \<longrightarrow>
     decision_node cfg st = Inr \<lparr>goto = ANALYZER_NODE, cmd_graph = None, update = []\<rparr>
     \<or> (decision_node cfg st = Inl (Raise KeyError ''active_agent'')
        \<and> st ''active_agent'' = None))
   \<and> ((py_strip response = [] \<or> py_strip response \<notin> set (map name (agents cfg)))
       \<and> st ''active_agent'' \<noteq> None
       \<and> s' ''active_agent'' = st ''active_agent''
       \<and> s' ''orchestrator_suggested_agent'' =
           map_of (orchestrator_node cfg st response) ''orchestrator_suggested_agent'' \<longrightarrow>
       decision_node cfg s' = Inr \<lparr>goto = ANALYZER_NODE, cmd_graph = None, update = []\<rparr>)"
  using decision_node_unconfigured[of st cfg] decision_after_orchestrator[of response cfg st s']
  by blast

theorem decision_keeps_agent_on_invalid_suggestion_witness:
  "decision_node (example_config [example_agent ''A'' ''pa'', example_agent ''B'' ''pb''] ORCHESTRATOR)
     [''active_agent'' \<mapsto> VStr ''A'', ''orchestrator_suggested_agent'' \<mapsto> VStr ''Z''] =
   Inr \<lparr>goto = ''analyzer'', cmd_graph = None, update = []\<rparr>
   \<and> orchestrator_node
       (example_config [example_agent ''A'' ''pa'', example_agent ''B'' ''pb''] ORCHESTRATOR)
       [''active_agent'' \<mapsto> VStr ''A''] '' Zed '' =
     [(''orchestrator_suggested_agent'', VStr ''A'')]
   \<and> decision_node (example_config [example_agent ''A'' ''pa'', example_agent ''B'' ''pb''] ORCHESTRATOR)
     [''active_agent'' \<mapsto> VStr ''A'', ''orchestrator_suggested_agent'' \<mapsto> VStr ''A''] =
   Inr \<lparr>goto = ''analyzer'', cmd_graph = None, update = []\<rparr>"
  using decision_keeps_agent_on_invalid_suggestion
    [where st = "[''active_agent'' \<mapsto> VStr ''A'', ''orchestrator_suggested_agent'' \<mapsto> VStr ''Z'']"
       and cfg = "example_config [example_agent ''A'' ''pa'', example_agent ''B'' ''pb''] ORCHESTRATOR"
       and response = "'' Zed ''"
       and s' = "[''active_agent'' \<mapsto> VStr ''A'', ''orchestrator_suggested_agent'' \<mapsto> VStr ''A'']"]
  by (simp add: example_config_def example_agent_def ANALYZER_NODE_def orchestrator_node_def
        py_strip_def py_isspace_def)

section \<open>Properties of initialization\<close>

lemma setup_dependencies_config: "config (fst (setup_dependencies env self)) = config self"
  by (auto simp: setup_dependencies_def Let_def split: sum.splits option.splits)

lemma setup_dependencies_graph: "graph (fst (setup_dependencies env self)) = graph self"
  by (auto simp: setup_dependencies_def Let_def split: sum.splits option.splits)

lemma build_graph_config: "config (fst (build_graph env self)) = config self"
  by (auto simp: build_graph_def split: option.splits)

lemma initialize_already_built:
  "config self \<noteq> None \<Longrightarrow> graph self \<noteq> None \<Longrightarrow> initialize env self = (self, Inr True)"
  by (simp add: initialize_def)

lemma initialize_success_state:
  assumes "snd (initialize env self) = Inr True"
  shows "config (fst (initialize env self)) \<noteq> None \<and> graph (fst (initialize env self)) \<noteq> None"
proof (cases "config self = None \<or> graph self \<noteq> None")
  case True
  with assms show ?thesis by (cases "config self = None") (auto simp: initialize_def)
next
  case False
  obtain s1 r1 where sd: "setup_dependencies env self = (s1, r1)"
    by (cases "setup_dependencies env self")
  obtain s2 r2 where bg: "build_graph env s1 = (s2, r2)"
    by (cases "build_graph env s1")
  from sd have c1: "config s1 = config self"
    using setup_dependencies_config[of env self] by simp
  from bg have c2: "config s2 = config s1"
    using build_graph_config[of env s1] by simp
  from assms False sd bg c1 c2 show ?thesis
    by (auto simp: initialize_def split: option.splits if_splits)
qed

lemma initialize_returns:
  assumes "only_exceptions env"
  shows "\<not> isl (snd (initialize env self))"
proof (cases "config self = None \<or> graph self \<noteq> None")
  case True
  then show ?thesis by (auto simp: initialize_def)
next
  case False
  obtain s1 r1 where sd: "setup_dependencies env self = (s1, r1)"
    by (cases "setup_dependencies env self")
  obtain s2 r2 where bg: "build_graph env s1 = (s2, r2)"
    by (cases "build_graph env s1")
  from sd assms have r1: "\<forall>e. r1 = Some e \<longrightarrow> is_Exception e"
    by (auto simp: only_exceptions_def setup_dependencies_def Let_def
             split: sum.splits option.splits if_splits)
  from sd have c1: "config s1 = config self"
    using setup_dependencies_config[of env self] by simp
  from bg assms c1 False have r2: "\<forall>e. r2 = Some e \<longrightarrow> is_Exception e"
    by (auto simp: only_exceptions_def build_graph_def split: option.splits if_splits)
  from False sd bg r1 r2 show ?thesis
    by (auto simp: initialize_def split: option.splits)
qed

lemma initialize_no_agents:
  assumes cfg: "config self = Some cfg" and none: "agents cfg = []" and g: "graph self = None"
    and ex: "only_exceptions env"
  shows "snd (initialize env self) = Inr False"
proof -
  obtain s1 r1 where sd: "setup_dependencies env self = (s1, r1)"
    by (cases "setup_dependencies env self")
  from sd have c1: "config s1 = Some cfg" "graph s1 = None"
    using setup_dependencies_config[of env self] setup_dependencies_graph[of env self] cfg g
    by simp_all
  with none have bg: "build_graph env s1 = (s1, None)"
    by (simp add: build_graph_def)
  from sd ex have r1: "\<forall>e. r1 = Some e \<longrightarrow> is_Exception e"
    by (auto simp: only_exceptions_def setup_dependencies_def Let_def
             split: sum.splits option.splits if_splits)
  with sd cfg g c1 bg show ?thesis
    by (auto simp: initialize_def split: option.splits)
qed

lemma initialize_dependency_fails:
  assumes "config self \<noteq> None" and "graph self = None" and "only_exceptions env"
    and "isl (pool_result env) \<or> analyzer_connect_error env \<noteq> None"
  shows "snd (initialize env self) = Inr False"
  using assms
  by (auto simp: initialize_def setup_dependencies_def only_exceptions_def Let_def isl_def
           split: option.splits sum.splits)

text \<open>
  An exception from \<^verbatim>\<open>checkpointer.setup()\<close> does not fail the initialization: it is
  logged and the method goes on to connect the analyzer client and to build the graph.
\<close>

lemma initialize_tolerates_setup_failure:
  assumes "config self = Some cfg" and "agents cfg \<noteq> []" and "graph self = None"
    and "pool_result env = Inr p" and "checkpointer_setup_error env = Some e"
    and "is_Exception e" and "analyzer_connect_error env = None" and "build_error env = None"
  shows "snd (initialize env self) = Inr True"
  using assms
  by (simp add: initialize_def setup_dependencies_def build_graph_def Let_def)

text \<open>
  Claim C4, amended. With a configuration and a graph already built, \<open>initialize\<close>
  returns \<open>True\<close> and leaves the orchestrator as it is; so a call after a successful
  call returns \<open>True\<close> without rebuilding, whatever the collaborators would do. When
  the collaborators fail with exceptions of class \<open>Exception\<close> only, no exception leaves
  \<open>initialize\<close>, and it returns \<open>False\<close> when no agents are configured, when the
  connection pool cannot be acquired and when the analyzer client fails to connect. An
  exception from \<^verbatim>\<open>checkpointer.setup()\<close> is not a failure of the initialization: with
  agents configured and the other collaborators succeeding, \<open>initialize\<close> returns
  \<open>True\<close>.
\<close>

theorem initialize_idempotent_fails_closed:
  "(config self \<noteq> None \<and> graph self \<noteq> None \<longrightarrow> initialize env self = (self, Inr True))
   \<and> (snd (initialize env self) = Inr True \<longrightarrow>
        initialize env' (fst (initialize env self)) = (fst (initialize env self), Inr True))
   \<and> (only_exceptions env \<longrightarrow> \<not> isl (snd (initialize env self)))
   \<and> (only_exceptions env \<and> config self = Some cfg \<and> agents cfg = [] \<and> graph self = None \<longrightarrow>
        snd (initialize env self) = Inr False)
   \<and> (only_exceptions env \<and> config self \<noteq> None \<and> graph self = None
        \<and> (isl (pool_result env) \<or> analyzer_connect_error env \<noteq> None) \<longrightarrow>
        snd (initialize env self) = Inr False)
   \<and> (config self = Some cfg \<and> agents cfg \<noteq> [] \<and> graph self = None
        \<and> pool_result env = Inr pool \<and> checkpointer_setup_error env = Some e
        \<and> is_Exception e \<and> analyzer_connect_error env = None \<and> build_error env = None \<longrightarrow>
        snd (initialize env self) = Inr True)"
proof (intro conjI impI)
  assume "config self \<noteq> None \<and> graph self \<noteq> None"
  then show "initialize env self = (self, Inr True)"
    by (simp add: initialize_already_built)
next
  assume "snd (initialize env self) = Inr True"
  from initialize_success_state[OF this]
  show "initialize env' (fst (initialize env self)) = (fst (initialize env self), Inr True)"
    by (simp add: initialize_already_built)
next
  assume "only_exceptions env"
  then show "\<not> isl (snd (initialize env self))"
    by (rule initialize_returns)
next
  assume "only_exceptions env \<and> config self = Some cfg \<and> agents cfg = [] \<and> graph self = None"
  then show "snd (initialize env self) = Inr False"
    by (simp add: initialize_no_agents)
next
  assume "only_exceptions env \<and> config self \<noteq> None \<and> graph self = None
        \<and> (isl (pool_result env) \<or> analyzer_connect_error env \<noteq> None)"
  then show "snd (initialize env self) = Inr False"
    by (simp add: initialize_dependency_fails)
next
  assume "config self = Some cfg \<and> agents cfg \<noteq> [] \<and> graph self = None
        \<and> pool_result env = Inr pool \<and> checkpointer_setup_error env = Some e
        \<and> is_Exception e \<and> analyzer_connect_error env = None \<and> build_error env = None"
  then show "snd (initialize env self) = Inr True"
    by (simp add: initialize_tolerates_setup_failure)
qed

theorem initialize_idempotent_fails_closed_witness:
  "snd (initialize
          \<lparr>pool_result = Inr 1, checkpointer_setup_error = None,
           analyzer_connect_error = None, build_error = None\<rparr> example_orchestrator) = Inr True
   \<and> initialize
       \<lparr>pool_result = Inl (Raise OtherError ''connection refused''),
        checkpointer_setup_error = None, analyzer_connect_error = None, build_error = None\<rparr>
       (fst (initialize
          \<lparr>pool_result = Inr 1, checkpointer_setup_error = None,
           analyzer_connect_error = None, build_error = None\<rparr> example_orchestrator)) =
     (fst (initialize
          \<lparr>pool_result = Inr 1, checkpointer_setup_error = None,
           analyzer_connect_error = None, build_error = None\<rparr> example_orchestrator), Inr True)
   \<and> snd (initialize
          \<lparr>pool_result = Inl (Raise OtherError ''connection refused''),
           checkpointer_setup_error = None, analyzer_connect_error = None,
           build_error = None\<rparr> example_orchestrator) = Inr False
   \<and> snd (initialize
          \<lparr>pool_result = Inr 1, checkpointer_setup_error = None,
           analyzer_connect_error = Some (Raise OtherError ''analyzer down''),
           build_error = None\<rparr> example_orchestrator) = Inr False
   \<and> snd (initialize
          \<lparr>pool_result = Inr 1, checkpointer_setup_error = None,
           analyzer_connect_error = None, build_error = None\<rparr>
          (example_orchestrator\<lparr>config := Some (example_config [] HANDOFF)\<rparr>)) = Inr False
   \<and> snd (initialize
          \<lparr>pool_result = Inr 1,
           checkpointer_setup_error = Some (Raise OtherError ''setup failed''),
           analyzer_connect_error = None, build_error = None\<rparr> example_orchestrator) = Inr True"
proof -
  let ?ok = "\<lparr>pool_result = Inr 1, checkpointer_setup_error = None,
              analyzer_connect_error = None, build_error = None\<rparr>"
  let ?bad = "\<lparr>pool_result = Inl (Raise OtherError ''connection refused''),
               checkpointer_setup_error = None, analyzer_connect_error = None,
               build_error = None\<rparr>"
  let ?down = "\<lparr>pool_result = Inr 1, checkpointer_setup_error = None,
                analyzer_connect_error = Some (Raise OtherError ''analyzer down''),
                build_error = None\<rparr>"
  let ?warn = "\<lparr>pool_result = Inr 1,
                 checkpointer_setup_error = Some (Raise OtherError ''setup failed''),
                 analyzer_connect_error = None, build_error = None\<rparr>"
  let ?empty = "example_orchestrator\<lparr>config := Some (example_config [] HANDOFF)\<rparr>"
  let ?cfg = "example_config [example_agent ''A'' ''pa'', example_agent ''B'' ''pb''] HANDOFF"
  have ok: "snd (initialize ?ok example_orchestrator) = Inr True"
    by (simp add: initialize_def setup_dependencies_def build_graph_def
          example_orchestrator_def example_config_def example_agent_def)
  have orch: "config example_orchestrator \<noteq> None" "graph example_orchestrator = None"
    "config example_orchestrator = Some ?cfg" "agents ?cfg \<noteq> []"
    by (simp_all add: example_orchestrator_def example_config_def)
  have bad: "only_exceptions ?bad" "isl (pool_result ?bad)"
    by (simp_all add: only_exceptions_def is_Exception_def)
  have down: "only_exceptions ?down" "analyzer_connect_error ?down \<noteq> None"
    by (simp_all add: only_exceptions_def is_Exception_def)
  have empty: "only_exceptions ?ok" "config ?empty = Some (example_config [] HANDOFF)"
    "agents (example_config [] HANDOFF) = []" "graph ?empty = None"
    by (simp_all add: only_exceptions_def example_orchestrator_def example_config_def)
  have warn: "pool_result ?warn = Inr 1"
    "checkpointer_setup_error ?warn = Some (Raise OtherError ''setup failed'')"
    "is_Exception (Raise OtherError ''setup failed'')"
    "analyzer_connect_error ?warn = None" "build_error ?warn = None"
    by (simp_all add: is_Exception_def)
  from initialize_idempotent_fails_closed
         [where env = ?ok and self = example_orchestrator and env' = ?bad] ok
  have second: "initialize ?bad (fst (initialize ?ok example_orchestrator)) =
                (fst (initialize ?ok example_orchestrator), Inr True)"
    by blast
  from initialize_idempotent_fails_closed
         [where env = ?bad and self = example_orchestrator] bad orch(1,2)
  have third: "snd (initialize ?bad example_orchestrator) = Inr False"
    by blast
  from initialize_idempotent_fails_closed
         [where env = ?down and self = example_orchestrator] down orch(1,2)
  have fourth: "snd (initialize ?down example_orchestrator) = Inr False"
    by blast
  from initialize_idempotent_fails_closed
         [where env = ?ok and self = ?empty and cfg = "example_config [] HANDOFF"] empty
  have fifth: "snd (initialize ?ok ?empty) = Inr False"
    by blast
  from initialize_idempotent_fails_closed
         [where env = ?warn and self = example_orchestrator and cfg = ?cfg
            and pool = 1 and e = "Raise OtherError ''setup failed''"] warn orch(2,3,4)
  have sixth: "snd (initialize ?warn example_orchestrator) = Inr True"
    by blast
  from ok second third fourth fifth sixth show ?thesis by blast
qed

text \<open>
  Claim C4 as stated fails for the checkpointer: when \<^verbatim>\<open>checkpointer.setup()\<close> raises and
  the other collaborators succeed, \<open>initialize\<close> returns \<open>True\<close> and the graph is built.
\<close>

theorem initialize_setup_failure_counterexample:
  "\<not> isl (pool_result
           \<lparr>pool_result = Inr 1,
            checkpointer_setup_error = Some (Raise OtherError ''connection refused''),
            analyzer_connect_error = None, build_error = None\<rparr>)
   \<and> is_Exception (Raise OtherError ''connection refused'')
   \<and> snd (initialize
            \<lparr>pool_result = Inr 1,
             checkpointer_setup_error = Some (Raise OtherError ''connection refused''),
             analyzer_connect_error = None, build_error = None\<rparr> example_orchestrator) = Inr True
   \<and> graph (fst (initialize
            \<lparr>pool_result = Inr 1,
             checkpointer_setup_error = Some (Raise OtherError ''connection refused''),
             analyzer_connect_error = None, build_error = None\<rparr> example_orchestrator)) =
     Some \<lparr>graph_nodes = [''A'', ''B'', ''analyzer''], graph_checkpointer = Some 1\<rparr>"
  by (simp add: initialize_def setup_dependencies_def build_graph_def is_Exception_def
        example_orchestrator_def example_config_def example_agent_def ANALYZER_NODE_def)

section \<open>Properties of the response queue\<close>

lemma put_responses_append: "put_responses evs q = q @ map Some evs"
  by (induction evs arbitrary: q) (simp_all add: rq_put_def)

lemma read_responses_events:
  "read_responses (map Some evs @ None # rest) = Some evs"
  by (induction evs) simp_all

lemma process_single_message_queue:
  "fst (process_single_message (evs, ending) tt q) =
   q @ map Some (evs @ terminal_error ending tt) @ [None]"
  by (cases ending)
     (simp_all add: process_single_message_def terminal_error_def put_responses_append
        rq_put_def)

text \<open>
  Claim C2. However the iteration over the turn ends, the last item put on the response
  queue is the close marker \<open>None\<close>. Before it come the responses of the turn and then:
  nothing when the generator is exhausted, one \<open>processing_timeout\<close> error event on a
  \<open>TimeoutError\<close>, one \<open>processing_error\<close> error event on any other
  \<open>Exception\<close>, and nothing on cancellation. The drain loop of the caller returns, with
  exactly these responses.
\<close>

theorem sentinel_always_closes_response_queue:
  "last (fst (process_single_message (evs, ending) tt q)) = None
   \<and> (ending = Exhausted \<longrightarrow>
        fst (process_single_message (evs, ending) tt q) = q @ map Some evs @ [None]
        \<and> read_responses (fst (process_single_message (evs, ending) tt [])) = Some evs)
   \<and> (ending = Raises e \<and> exc_class_of e = TimeoutError \<longrightarrow>
        fst (process_single_message (evs, ending) tt q) =
          q @ map Some evs @
          [Some (ErrorEvent ''processing_timeout'' (''Processing timed out after '' @ tt @ ''s'')),
           None]
        \<and> read_responses (fst (process_single_message (evs, ending) tt [])) =
          Some (evs @ [ErrorEvent ''processing_timeout''
                         (''Processing timed out after '' @ tt @ ''s'')]))
   \<and> (ending = Raises e \<and> exc_class_of e \<noteq> TimeoutError \<and> is_Exception e \<longrightarrow>
        fst (process_single_message (evs, ending) tt q) =
          q @ map Some evs @ [Some (ErrorEvent ''processing_error'' (str_of_error e)), None]
        \<and> read_responses (fst (process_single_message (evs, ending) tt [])) =
          Some (evs @ [ErrorEvent ''processing_error'' (str_of_error e)]))
   \<and> (ending = Raises e \<and> \<not> is_Exception e \<longrightarrow>
        fst (process_single_message (evs, ending) tt q) = q @ map Some evs @ [None]
        \<and> read_responses (fst (process_single_message (evs, ending) tt [])) = Some evs)
   \<and> read_responses (fst (process_single_message (evs, ending) tt [])) \<noteq> None"
proof -
  have rd: "read_responses (fst (process_single_message (evs, ending) tt [])) =
            Some (evs @ terminal_error ending tt)"
    using read_responses_events[of "evs @ terminal_error ending tt" "[]"]
    by (simp add: process_single_message_queue)
  show ?thesis
    unfolding rd unfolding process_single_message_queue
    by (auto simp: terminal_error_def is_Exception_def)
qed

theorem sentinel_always_closes_response_queue_witness:
  "process_single_message
     ([DebugEvent ''graph_execution_start'' None], Raises (Raise TimeoutError '''')) ''300.0'' [] =
   ([Some (DebugEvent ''graph_execution_start'' None),
     Some (ErrorEvent ''processing_timeout'' ''Processing timed out after 300.0s''),
     None], None)
   \<and> read_responses
       (fst (process_single_message
          ([DebugEvent ''graph_execution_start'' None], Raises (Raise TimeoutError ''''))
          ''300.0'' [])) =
     Some [DebugEvent ''graph_execution_start'' None,
           ErrorEvent ''processing_timeout'' ''Processing timed out after 300.0s'']
   \<and> read_responses
       (fst (process_single_message
          ([DebugEvent ''graph_execution_start'' None],
           Raises (Raise ValueError ''Graph not initialized. Call initialize() first.''))
          ''300.0'' [])) =
     Some [DebugEvent ''graph_execution_start'' None,
           ErrorEvent ''processing_error'' ''Graph not initialized. Call initialize() first.'']
   \<and> read_responses
       (fst (process_single_message ([DebugEvent ''graph_execution_start'' None], Exhausted)
          ''300.0'' [])) =
     Some [DebugEvent ''graph_execution_start'' None]
   \<and> read_responses
       (fst (process_single_message
          ([DebugEvent ''graph_execution_start'' None], Raises (Raise CancelledError ''''))
          ''300.0'' [])) =
     Some [DebugEvent ''graph_execution_start'' None]"
  using sentinel_always_closes_response_queue
          [where evs = "[DebugEvent ''graph_execution_start'' None]"
             and ending = "Raises (Raise TimeoutError '''')" and e = "Raise TimeoutError ''''"
             and tt = "''300.0''" and q = "[]"]
        sentinel_always_closes_response_queue
          [where evs = "[DebugEvent ''graph_execution_start'' None]"
             and ending = "Raises (Raise ValueError ''Graph not initialized. Call initialize() first.'')"
             and e = "Raise ValueError ''Graph not initialized. Call initialize() first.''"
             and tt = "''300.0''" and q = "[]"]
        sentinel_always_closes_response_queue
          [where evs = "[DebugEvent ''graph_execution_start'' None]"
             and ending = Exhausted and tt = "''300.0''" and q = "[]"]
        sentinel_always_closes_response_queue
          [where evs = "[DebugEvent ''graph_execution_start'' None]"
             and ending = "Raises (Raise CancelledError '''')" and e = "Raise CancelledError ''''"
             and tt = "''300.0''" and q = "[]"]
  by (simp add: is_Exception_def process_single_message_def rq_put_def)

section \<open>Properties of emitted-message tracking\<close>

lemma dict_pop_head: "k \<notin> fst ` set d \<Longrightarrow> dict_pop k ((k, v) # d) = d"
  by (simp add: dict_pop_def)

lemma fold_dict_pop_take:
  "wf_dict d \<Longrightarrow> fold dict_pop (take n (map fst d)) d = drop n d"
proof (induction d arbitrary: n)
  case Nil
  then show ?case by simp
next
  case (Cons p d)
  obtain k v where p: "p = (k, v)" by (cases p)
  from Cons.prems p have fresh: "k \<notin> fst ` set d" and wf: "wf_dict d"
    by (auto simp: wf_dict_def)
  show ?case
  proof (cases n)
    case 0
    then show ?thesis by simp
  next
    case (Suc m)
    with p fresh Cons.IH[OF wf, of m] show ?thesis
      by (simp add: dict_pop_head)
  qed
qed

lemma sent_events_cleanup:
  "wf_dict (sent_events self) \<Longrightarrow>
   sent_events (cleanup_sent_events self) =
     (if length (sent_events self) > MAX_SENT_EVENTS
      then drop (MAX_SENT_EVENTS div 2) (sent_events self) else sent_events self)"
  by (simp add: cleanup_sent_events_def fold_dict_pop_take)

lemma cleanup_other_fields:
  "config (cleanup_sent_events self) = config self"
  by (simp add: cleanup_sent_events_def Let_def)

lemma dict_setitem_fresh: "k \<notin> fst ` set d \<Longrightarrow> dict_setitem k v d = d @ [(k, v)]"
  by (induction d) (auto simp: dict_setitem_def)

lemma length_dict_setitem: "length (dict_setitem k v d) \<le> Suc (length d)"
  by (induction d) (auto simp: dict_setitem_def)

lemma wf_dict_drop: "wf_dict d \<Longrightarrow> wf_dict (drop n d)"
  by (simp add: wf_dict_def drop_map[symmetric])

lemma parse_recorded:
  "msg_id msg = Some i \<Longrightarrow> i \<in> fst ` set (sent_events self) \<Longrightarrow>
   parse_and_yield_chunks filler self msg agent_name = (self, Inr [])"
  by (simp add: parse_and_yield_chunks_def)

lemma parse_sent_events_cases:
  "sent_events (fst (parse_and_yield_chunks filler self msg agent_name)) = sent_events self
   \<or> sent_events (fst (parse_and_yield_chunks filler self msg agent_name)) =
       sent_events (cleanup_sent_events self)
   \<or> (\<exists>i. sent_events (fst (parse_and_yield_chunks filler self msg agent_name)) =
          dict_setitem i True (sent_events (cleanup_sent_events self)))"
  by (auto simp: parse_and_yield_chunks_def record_sent_def Let_def
           split: message.splits option.splits)

lemma parse_new_sent_events:
  assumes wf: "wf_dict (sent_events self)" and cfg: "config self \<noteq> None"
    and mid: "msg_id msg = Some i" and ne: "i \<noteq> []"
    and new: "i \<notin> fst ` set (sent_events self)"
  shows "sent_events (fst (parse_and_yield_chunks filler self msg agent_name)) =
         (if length (sent_events self) > MAX_SENT_EVENTS
          then drop (MAX_SENT_EVENTS div 2) (sent_events self) else sent_events self)
         @ [(i, True)]"
proof -
  let ?c = "cleanup_sent_events self"
  have c: "sent_events ?c =
     (if length (sent_events self) > MAX_SENT_EVENTS
      then drop (MAX_SENT_EVENTS div 2) (sent_events self) else sent_events self)"
    using wf by (rule sent_events_cleanup)
  have "set (sent_events ?c) \<subseteq> set (sent_events self)"
    unfolding c by (auto dest: in_set_dropD)
  with new have fresh: "i \<notin> fst ` set (sent_events ?c)" by auto
  have rec: "sent_events (record_sent msg ?c) = sent_events ?c @ [(i, True)]"
    using mid ne fresh by (simp add: record_sent_def dict_setitem_fresh)
  from cfg obtain cf where cf: "config ?c = Some cf"
    by (auto simp: cleanup_other_fields)
  have "sent_events (fst (parse_and_yield_chunks filler self msg agent_name)) =
        sent_events (record_sent msg ?c)"
    using mid new cf
    by (cases msg) (simp_all add: parse_and_yield_chunks_def Let_def)
  with rec c show ?thesis by simp
qed

lemma parse_bounded:
  assumes wf: "wf_dict (sent_events self)"
    and le: "length (sent_events self) \<le> MAX_SENT_EVENTS + 1"
  shows "length (sent_events (fst (parse_and_yield_chunks filler self msg agent_name)))
           \<le> MAX_SENT_EVENTS + 1
         \<and> wf_dict (sent_events (fst (parse_and_yield_chunks filler self msg agent_name)))"
proof -
  let ?c = "cleanup_sent_events self"
  have c: "sent_events ?c =
     (if length (sent_events self) > MAX_SENT_EVENTS
      then drop (MAX_SENT_EVENTS div 2) (sent_events self) else sent_events self)"
    using wf by (rule sent_events_cleanup)
  have half: "0 < MAX_SENT_EVENTS div 2" by (simp add: MAX_SENT_EVENTS_def)
  from c le half have lc: "length (sent_events ?c) \<le> MAX_SENT_EVENTS"
    by (auto split: if_splits)
  from c wf have wc: "wf_dict (sent_events ?c)"
    by (auto simp: wf_dict_drop split: if_splits)
  from parse_sent_events_cases[of filler self msg agent_name] show ?thesis
  proof (elim disjE exE)
    assume "sent_events (fst (parse_and_yield_chunks filler self msg agent_name)) = sent_events self"
    with wf le show ?thesis by simp
  next
    assume "sent_events (fst (parse_and_yield_chunks filler self msg agent_name)) =
       sent_events (cleanup_sent_events self)"
    with wc lc show ?thesis by simp
  next
    fix i
    assume "sent_events (fst (parse_and_yield_chunks filler self msg agent_name)) =
          dict_setitem i True (sent_events (cleanup_sent_events self))"
    with wc lc length_dict_setitem[of i True "sent_events ?c"] show ?thesis
      by (simp add: wf_dict_setitem)
  qed
qed

text \<open>
  Claim C7, amended. A message whose identifier is recorded in \<open>sent_events\<close> when it
  arrives yields no events and leaves the orchestrator as it is. A message with a new,
  non-empty identifier is recorded after the entries already there, from which the oldest
  500 are removed first when there are more than 1000 of them. The number of recorded
  identifiers stays at or below 1001. A message is therefore not surfaced again while its
  identifier is recorded, and may be once the identifier has been evicted.
\<close>

theorem recorded_message_yields_nothing:
  "(msg_id msg = Some i \<and> i \<in> fst ` set (sent_events self) \<longrightarrow>
      parse_and_yield_chunks filler self msg agent_name = (self, Inr []))
   \<and> (wf_dict (sent_events self) \<and> config self \<noteq> None \<and> msg_id msg = Some i \<and> i \<noteq> []
        \<and> i \<notin> fst ` set (sent_events self) \<longrightarrow>
      sent_events (fst (parse_and_yield_chunks filler self msg agent_name)) =
        (if length (sent_events self) > 1000
         then drop 500 (sent_events self) else sent_events self) @ [(i, True)])
   \<and> (wf_dict (sent_events self) \<and> length (sent_events self) \<le> 1001 \<longrightarrow>
      length (sent_events (fst (parse_and_yield_chunks filler self msg agent_name))) \<le> 1001
      \<and> wf_dict (sent_events (fst (parse_and_yield_chunks filler self msg agent_name))))"
  using parse_recorded[of msg i self filler agent_name]
        parse_new_sent_events[of self msg i filler agent_name]
        parse_bounded[of self filler msg agent_name]
  by (simp add: MAX_SENT_EVENTS_def)

theorem recorded_message_yields_nothing_witness:
  "parse_and_yield_chunks None (example_orchestrator\<lparr>sent_events := [(''m1'', True)]\<rparr>)
     (AIMessage (Some ''m1'') ''hi'' []) ''A'' =
   (example_orchestrator\<lparr>sent_events := [(''m1'', True)]\<rparr>, Inr [])
   \<and> sent_events
       (fst (parse_and_yield_chunks None (example_orchestrator\<lparr>sent_events := [(''m1'', True)]\<rparr>)
               (AIMessage (Some ''m2'') ''hi'' []) ''A'')) =
     [(''m1'', True), (''m2'', True)]"
  using recorded_message_yields_nothing
          [where msg = "AIMessage (Some ''m1'') ''hi'' []" and i = "''m1''"
             and self = "example_orchestrator\<lparr>sent_events := [(''m1'', True)]\<rparr>"
             and filler = None and agent_name = "''A''"]
        recorded_message_yields_nothing
          [where msg = "AIMessage (Some ''m2'') ''hi'' []" and i = "''m2''"
             and self = "example_orchestrator\<lparr>sent_events := [(''m1'', True)]\<rparr>"
             and filler = None and agent_name = "''A''"]
  by (simp add: wf_dict_def example_orchestrator_def)

lemma yield_messages_append:
  "yield_messages filler self (xs @ ys) ag =
     (case yield_messages filler self xs ag of
        (s1, e1, Some err) \<Rightarrow> (s1, e1, Some err)
      | (s1, e1, None) \<Rightarrow>
          (case yield_messages filler s1 ys ag of (s2, e2, r) \<Rightarrow> (s2, e1 @ e2, r)))"
proof (induction xs arbitrary: self)
  case Nil
  then show ?case by (simp split: prod.splits)
next
  case (Cons x xs)
  then show ?case
    by (auto split: prod.splits sum.splits option.splits)
qed

lemma numbered_id_inj: "(numbered_id a = numbered_id b) = (a = b)"
proof
  assume "numbered_id a = numbered_id b"
  then have "length (numbered_id a) = length (numbered_id b)" by simp
  then show "a = b" by (simp add: numbered_id_def)
qed simp

lemma numbered_id_not_in:
  "b \<notin> set ns \<Longrightarrow> numbered_id b \<notin> fst ` set (map (\<lambda>n. (numbered_id n, True)) ns)"
  by (auto simp: numbered_id_inj)

lemma wf_numbered: "distinct ns \<Longrightarrow> wf_dict (map (\<lambda>n. (numbered_id n, True)) ns)"
  by (simp add: wf_dict_def distinct_map inj_on_def numbered_id_inj comp_def)

text \<open>What a numbered message yields when it is not yet recorded.\<close>

lemma parse_numbered:
  assumes cfg: "config self = Some cf" and sent: "sent_events self = map (\<lambda>n. (numbered_id n, True)) ns"
    and d: "distinct ns" and new: "b \<notin> set ns"
  shows "parse_and_yield_chunks None self (numbered_message b) ag =
         (self\<lparr>sent_events :=
            (if length ns > MAX_SENT_EVENTS then drop (MAX_SENT_EVENTS div 2) (sent_events self)
             else sent_events self) @ [(numbered_id b, True)]\<rparr>,
          Inr (handle_ai_message cf None (numbered_message b)
                 [(''agent'', VStr ag), (''id'', VStr (numbered_id b))]))"
proof -
  have wf: "wf_dict (sent_events self)" unfolding sent using d by (rule wf_numbered)
  have fresh: "numbered_id b \<notin> fst ` set (sent_events self)"
    unfolding sent using new by (rule numbered_id_not_in)
  let ?c = "cleanup_sent_events self"
  have c: "sent_events ?c =
     (if length ns > MAX_SENT_EVENTS then drop (MAX_SENT_EVENTS div 2) (sent_events self)
      else sent_events self)"
    using sent_events_cleanup[OF wf] by (simp add: sent)
  have "set (sent_events ?c) \<subseteq> set (sent_events self)"
    unfolding c by (auto dest: in_set_dropD)
  with fresh have fresh': "numbered_id b \<notin> fst ` set (sent_events ?c)" by auto
  have ceq: "?c = self\<lparr>sent_events := sent_events ?c\<rparr>"
    by (simp add: cleanup_sent_events_def Let_def)
  have "record_sent (numbered_message b) ?c =
        record_sent (numbered_message b) (self\<lparr>sent_events := sent_events ?c\<rparr>)"
    by (rule arg_cong[OF ceq])
  also have "\<dots> = self\<lparr>sent_events := sent_events ?c @ [(numbered_id b, True)]\<rparr>"
    using fresh'
    by (simp add: record_sent_def numbered_message_def numbered_id_def dict_setitem_fresh)
  finally have rec: "record_sent (numbered_message b) ?c =
             self\<lparr>sent_events := sent_events ?c @ [(numbered_id b, True)]\<rparr>" .
  have "parse_and_yield_chunks None self (numbered_message b) ag =
        (record_sent (numbered_message b) ?c,
         Inr (handle_ai_message cf None (numbered_message b)
                 [(''agent'', VStr ag), (''id'', VStr (numbered_id b))]))"
    using fresh cfg
    by (simp add: parse_and_yield_chunks_def numbered_message_def Let_def opt_str_def
          cleanup_other_fields)
  with rec c show ?thesis by simp
qed

lemma yield_numbered_prefix:
  assumes cfg: "config self = Some cf" and empty: "sent_events self = []"
  shows "k \<le> Suc MAX_SENT_EVENTS \<Longrightarrow>
         yield_messages None self (numbered_messages k) ag =
         (self\<lparr>sent_events := map (\<lambda>n. (numbered_id n, True)) [0..<k]\<rparr>,
          concat (map (\<lambda>n. handle_ai_message cf None (numbered_message n)
                              [(''agent'', VStr ag), (''id'', VStr (numbered_id n))]) [0..<k]),
          None)"
proof (induction k)
  case 0
  then show ?case using empty by (simp add: numbered_messages_def)
next
  case (Suc k)
  let ?s = "self\<lparr>sent_events := map (\<lambda>n. (numbered_id n, True)) [0..<k]\<rparr>"
  from Suc.prems have k: "k \<le> MAX_SENT_EVENTS" by simp
  have step: "parse_and_yield_chunks None ?s (numbered_message k) ag =
         (?s\<lparr>sent_events :=
            (if length [0..<k] > MAX_SENT_EVENTS
             then drop (MAX_SENT_EVENTS div 2) (sent_events ?s)
             else sent_events ?s) @ [(numbered_id k, True)]\<rparr>,
          Inr (handle_ai_message cf None (numbered_message k)
                 [(''agent'', VStr ag), (''id'', VStr (numbered_id k))]))"
    by (rule parse_numbered) (simp_all add: cfg)
  from Suc.IH k have ih: "yield_messages None self (numbered_messages k) ag =
         (?s, concat (map (\<lambda>n. handle_ai_message cf None (numbered_message n)
                              [(''agent'', VStr ag), (''id'', VStr (numbered_id n))]) [0..<k]),
          None)"
    by simp
  have "numbered_messages (Suc k) = numbered_messages k @ [numbered_message k]"
    by (simp add: numbered_messages_def)
  then show ?case
    using ih step k by (simp add: yield_messages_append)
qed

lemma yield_numbered_overflow:
  assumes cfg: "config self = Some cf" and empty: "sent_events self = []"
  shows "yield_messages None self (numbered_messages (Suc (Suc MAX_SENT_EVENTS))) ag =
         (self\<lparr>sent_events :=
            map (\<lambda>n. (numbered_id n, True)) [MAX_SENT_EVENTS div 2..<Suc (Suc MAX_SENT_EVENTS)]\<rparr>,
          concat (map (\<lambda>n. handle_ai_message cf None (numbered_message n)
                              [(''agent'', VStr ag), (''id'', VStr (numbered_id n))])
                    [0..<Suc (Suc MAX_SENT_EVENTS)]),
          None)"
proof -
  let ?M = "Suc MAX_SENT_EVENTS"
  let ?s = "self\<lparr>sent_events := map (\<lambda>n. (numbered_id n, True)) [0..<?M]\<rparr>"
  have pre: "yield_messages None self (numbered_messages ?M) ag =
         (?s, concat (map (\<lambda>n. handle_ai_message cf None (numbered_message n)
                              [(''agent'', VStr ag), (''id'', VStr (numbered_id n))]) [0..<?M]),
          None)"
    by (rule yield_numbered_prefix[OF cfg empty]) simp
  have step: "parse_and_yield_chunks None ?s (numbered_message ?M) ag =
         (?s\<lparr>sent_events :=
            (if length [0..<?M] > MAX_SENT_EVENTS
             then drop (MAX_SENT_EVENTS div 2) (sent_events ?s)
             else sent_events ?s) @ [(numbered_id ?M, True)]\<rparr>,
          Inr (handle_ai_message cf None (numbered_message ?M)
                 [(''agent'', VStr ag), (''id'', VStr (numbered_id ?M))]))"
    by (rule parse_numbered) (simp_all add: cfg)
  have half: "MAX_SENT_EVENTS div 2 \<le> ?M" by simp
  have dr: "drop (MAX_SENT_EVENTS div 2) (map (\<lambda>n. (numbered_id n, True)) [0..<?M])
              @ [(numbered_id ?M, True)] =
            map (\<lambda>n. (numbered_id n, True)) [MAX_SENT_EVENTS div 2..<Suc ?M]"
    using half by (simp add: drop_map del: upt_Suc) (simp add: upt_Suc_append)
  have ev: "concat (map f [0..<Suc ?M]) = concat (map f [0..<?M]) @ f ?M"
    for f :: "nat \<Rightarrow> event list"
    by simp
  have "numbered_messages (Suc ?M) = numbered_messages ?M @ [numbered_message ?M]"
    by (simp add: numbered_messages_def)
  then show ?thesis
    using pre step dr by (simp add: yield_messages_append ev del: upt_Suc)
qed


lemma example_events:
  "handle_ai_message
     (example_config [example_agent ''A'' ''pa'', example_agent ''B'' ''pb''] HANDOFF) None
     (numbered_message n) [(''agent'', VStr ag), (''id'', VStr (numbered_id n))] =
   [DebugEvent ''AI Message''
      (Some [(''agent'', VStr ag), (''id'', VStr (numbered_id n)), (''content'', VStr ''hi''),
             (''sanitized_content'', VNone), (''was_sanitized'', VBool False),
             (''removed_content'', VNone)]),
    MessageEvent ''hi'' (Some (numbered_id n))]"
  by (simp add: handle_ai_message_def numbered_message_def example_config_def opt_str_def
        sanitize_message_def py_find_def)

lemma count_numbered_events:
  "count_list
     (concat (map (\<lambda>n. [DebugEvent ''AI Message''
                          (Some [(''agent'', VStr ag), (''id'', VStr (numbered_id n)),
                                 (''content'', VStr ''hi''), (''sanitized_content'', VNone),
                                 (''was_sanitized'', VBool False), (''removed_content'', VNone)]),
                        MessageEvent ''hi'' (Some (numbered_id n))]) [0..<k]))
     (MessageEvent ''hi'' (Some (numbered_id 0))) = (if 0 < k then 1 else 0)"
  by (induction k) (auto simp: numbered_id_inj)

text \<open>
  Claim C7 as stated fails: after 1002 distinct messages the identifier of the first has
  been evicted, and the first message, streamed again, is surfaced a second time.
\<close>

theorem evicted_message_surfaces_again_counterexample:
  "count_list
     (fst (snd (yield_messages None example_orchestrator
                  (numbered_messages 1002 @ [numbered_message 0]) ''A'')))
     (MessageEvent ''hi'' (Some (numbered_id 0))) = 2"
proof -
  let ?cf = "example_config [example_agent ''A'' ''pa'', example_agent ''B'' ''pb''] HANDOFF"
  have cfg: "config example_orchestrator = Some ?cf" and empty: "sent_events example_orchestrator = []"
    by (simp_all add: example_orchestrator_def)
  have n: "(1002::nat) = Suc (Suc MAX_SENT_EVENTS)"
    by (simp add: MAX_SENT_EVENTS_def)
  let ?s = "example_orchestrator\<lparr>sent_events :=
            map (\<lambda>n. (numbered_id n, True)) [MAX_SENT_EVENTS div 2..<Suc (Suc MAX_SENT_EVENTS)]\<rparr>"
  have first: "yield_messages None example_orchestrator (numbered_messages 1002) ''A'' =
         (?s,
          concat (map (\<lambda>n. handle_ai_message ?cf None (numbered_message n)
                              [(''agent'', VStr ''A''), (''id'', VStr (numbered_id n))])
                    [0..<Suc (Suc MAX_SENT_EVENTS)]),
          None)"
    unfolding n by (rule yield_numbered_overflow[OF cfg empty])
  have again: "parse_and_yield_chunks None ?s (numbered_message 0) ''A'' =
         (?s\<lparr>sent_events :=
            (if length [MAX_SENT_EVENTS div 2..<Suc (Suc MAX_SENT_EVENTS)] > MAX_SENT_EVENTS
             then drop (MAX_SENT_EVENTS div 2) (sent_events ?s)
             else sent_events ?s) @ [(numbered_id 0, True)]\<rparr>,
          Inr (handle_ai_message ?cf None (numbered_message 0)
                 [(''agent'', VStr ''A''), (''id'', VStr (numbered_id 0))]))"
  proof (rule parse_numbered)
    show "config ?s = Some ?cf" by (simp add: cfg)
    show "sent_events ?s =
          map (\<lambda>n. (numbered_id n, True)) [MAX_SENT_EVENTS div 2..<Suc (Suc MAX_SENT_EVENTS)]"
      by simp
    show "distinct [MAX_SENT_EVENTS div 2..<Suc (Suc MAX_SENT_EVENTS)]" by simp
    show "0 \<notin> set [MAX_SENT_EVENTS div 2..<Suc (Suc MAX_SENT_EVENTS)]"
      by (simp add: MAX_SENT_EVENTS_def)
  qed
  have "fst (snd (yield_messages None example_orchestrator
                  (numbered_messages 1002 @ [numbered_message 0]) ''A'')) =
        concat (map (\<lambda>n. handle_ai_message ?cf None (numbered_message n)
                              [(''agent'', VStr ''A''), (''id'', VStr (numbered_id n))])
                    [0..<Suc (Suc MAX_SENT_EVENTS)])
        @ handle_ai_message ?cf None (numbered_message 0)
                 [(''agent'', VStr ''A''), (''id'', VStr (numbered_id 0))]"
    using first again by (simp add: yield_messages_append del: upt_Suc)
  then show ?thesis
    by (simp add: example_events count_numbered_events del: upt_Suc)
qed

end
